theory Spec2Isabelle
  imports Main "HOL-Library.Word"
begin

section \<open>Chad Session Builder: the JavaScript host\<close>

text \<open>
  A device tag is a JavaScript string: a list of UTF-16 code units. \<open>js\<close> writes an
  ASCII literal as such a string. Strings the code only compares or tests for emptiness
  (project ids, slugs, modes) stay of type \<open>string\<close>.
\<close>

type_synonym code_unit = "16 word"

type_synonym js_string = "code_unit list"

definition js :: "string \<Rightarrow> js_string" where
  "js s = map of_char s"

text \<open>
  Two things the program takes from the host it runs on are parameters of the model, and
  every theorem that does not fix them holds for all their values:
  \<^item> \<open>LocalTZA t isUTC\<close>, ECMAScript's local time zone adjustment in milliseconds: the
    offset in force at the instant \<open>t\<close> when \<open>isUTC\<close> is true, and the offset with which the
    local clock reading \<open>t\<close> is read when \<open>isUTC\<close> is false (a reading that occurs twice or
    never, around a change of offset, is read with the offset before the change);
  \<^item> \<open>toLowerCase\<close>, \<open>String.prototype.toLowerCase\<close>: the Unicode case conversion of a
    string, which need not work unit by unit nor keep the length.
\<close>

record host =
  LocalTZA :: "int \<Rightarrow> bool \<Rightarrow> int"
  toLowerCase :: "js_string \<Rightarrow> js_string"

section \<open>Dates\<close>

text \<open>
  A JavaScript \<open>Date\<close> is its time value: milliseconds since the epoch, UTC, an integer.
  \<open>getMinutes\<close> and \<open>setMinutes\<close> work on local time through ECMAScript's \<open>LocalTime\<close>
  and \<open>UTC\<close>. \<open>Day\<close>, \<open>HourFromTime\<close>, \<open>MinFromTime\<close>, \<open>MakeTime\<close> and \<open>MakeDate\<close>
  are written out; \<open>div\<close> and \<open>mod\<close> on \<open>int\<close> round towards minus infinity, as the
  standard's \<open>floor\<close> and modulo do. \<open>TimeClip\<close> (dates more than \<open>8.64e15\<close> ms from the
  epoch become invalid) is left out.
\<close>

type_synonym date = int

definition LocalTime :: "host \<Rightarrow> date \<Rightarrow> int" where
  "LocalTime h t = t + LocalTZA h t True"

definition UTC :: "host \<Rightarrow> int \<Rightarrow> date" where
  "UTC h t = t - LocalTZA h t False"

definition Day :: "int \<Rightarrow> int" where
  "Day t = t div 86400000"

definition HourFromTime :: "int \<Rightarrow> int" where
  "HourFromTime t = (t div 3600000) mod 24"

definition MinFromTime :: "int \<Rightarrow> int" where
  "MinFromTime t = (t div 60000) mod 60"

definition SecFromTime :: "int \<Rightarrow> int" where
  "SecFromTime t = (t div 1000) mod 60"

definition msFromTime :: "int \<Rightarrow> int" where
  "msFromTime t = t mod 1000"

definition MakeTime :: "int \<Rightarrow> int \<Rightarrow> int \<Rightarrow> int \<Rightarrow> int" where
  "MakeTime hour minute sec ms = hour * 3600000 + minute * 60000 + sec * 1000 + ms"

definition MakeDate :: "int \<Rightarrow> int \<Rightarrow> int" where
  "MakeDate day time = day * 86400000 + time"

definition getMinutes :: "host \<Rightarrow> date \<Rightarrow> int" where
  "getMinutes h d = MinFromTime (LocalTime h d)"

definition getSeconds :: "host \<Rightarrow> date \<Rightarrow> int" where
  "getSeconds h d = SecFromTime (LocalTime h d)"

definition getMilliseconds :: "host \<Rightarrow> date \<Rightarrow> int" where
  "getMilliseconds h d = msFromTime (LocalTime h d)"

text \<open>\<open>d.setMinutes(min, sec, ms)\<close>: the new time value of \<open>d\<close>.\<close>

definition setMinutes3 :: "host \<Rightarrow> date \<Rightarrow> int \<Rightarrow> int \<Rightarrow> int \<Rightarrow> date" where
  "setMinutes3 h d m s ms =
     (let t = LocalTime h d
      in UTC h (MakeDate (Day t) (MakeTime (HourFromTime t) m s ms)))"

text \<open>\<open>d.setMinutes(min)\<close>: seconds and milliseconds are kept.\<close>

definition setMinutes1 :: "host \<Rightarrow> date \<Rightarrow> int \<Rightarrow> date" where
  "setMinutes1 h d m = setMinutes3 h d m (getSeconds h d) (getMilliseconds h d)"

text \<open>
  \<^verbatim>\<open>function floorToQuarterHour(date) {
    const d = new Date(date);
    const minutes = Math.floor(d.getMinutes() / 15) * 15;
    d.setMinutes(minutes, 0, 0);
    return d; }\<close>
\<close>

definition floorToQuarterHour :: "host \<Rightarrow> date \<Rightarrow> date" where
  "floorToQuarterHour h date =
     (let d = date;
          minutes = (getMinutes h d div 15) * 15
      in setMinutes3 h d minutes 0 0)"

text \<open>\<^verbatim>\<open>function quarterIndex(date) { return Math.floor(date.getMinutes() / 15); }\<close>\<close>

definition quarterIndex :: "host \<Rightarrow> date \<Rightarrow> int" where
  "quarterIndex h date = getMinutes h date div 15"

text \<open>
  The first three lines of \<open>processTick\<close>, with the clock reading \<open>now\<close> a parameter:
  \<^verbatim>\<open>const tickTime = floorToQuarterHour();
  const qIdx = quarterIndex(tickTime);
  const mode = (qIdx % 2 === 0) ? 'internal' : 'external';\<close>
\<close>

definition modeOfIndex :: "int \<Rightarrow> string" where
  "modeOfIndex qIdx = (if qIdx mod 2 = 0 then ''internal'' else ''external'')"

definition tickMode :: "host \<Rightarrow> date \<Rightarrow> string" where
  "tickMode h now =
     (let tickTime = floorToQuarterHour h now;
          qIdx = quarterIndex h tickTime
      in modeOfIndex qIdx)"

text \<open>
  \<^verbatim>\<open>function msUntilNextQuarter() {
    const now = new Date();
    const next = floorToQuarterHour(now);
    next.setMinutes(next.getMinutes() + 15);
    return next.getTime() - now.getTime(); }\<close>
\<close>

definition msUntilNextQuarter :: "host \<Rightarrow> date \<Rightarrow> int" where
  "msUntilNextQuarter h now =
     (let next0 = floorToQuarterHour h now;
          next1 = setMinutes1 h next0 (getMinutes h next0 + 15)
      in next1 - now)"

section \<open>Device tags\<close>

text \<open>
  The character class \<open>[a-z0-9-]\<close>, on code units (the pattern has no \<open>u\<close> flag, so
  \<open>replace\<close> works unit by unit).
\<close>

definition in_tag_class :: "code_unit \<Rightarrow> bool" where
  "in_tag_class c \<longleftrightarrow> c \<in> set (js ''abcdefghijklmnopqrstuvwxyz0123456789-'')"

text \<open>
  \<^verbatim>\<open>function normalizePcTag(pcTag) {
    if (!pcTag) return 'studio-terminals';
    return pcTag.toLowerCase().replace(/[^a-z0-9-]/g, '-'); }\<close>
  A tag is a string or \<open>null\<close> (\<open>None\<close>); \<open>0x2D\<close> is the hyphen.
\<close>

definition normalizePcTag :: "host \<Rightarrow> js_string option \<Rightarrow> js_string" where
  "normalizePcTag h pcTag =
     (case pcTag of
        None \<Rightarrow> js ''studio-terminals''
      | Some s \<Rightarrow>
          if s = [] then js ''studio-terminals''
          else map (\<lambda>c. if in_tag_class c then c else 0x2D) (toLowerCase h s))"

section \<open>Tables\<close>

text \<open>
  Columns the code treats as possibly \<open>null\<close> are options. A row of
  \<open>dev_transcripts_raw\<close>, with the columns \<open>processTick\<close> reads (\<open>id\<close> is \<open>ev_id\<close>,
  \<open>user_id\<close> is \<open>ev_user_id\<close>, \<open>mode as raw_mode\<close> is \<open>raw_mode\<close>):
\<close>

record raw_event =
  ev_id :: int
  pc_tag :: "js_string option"
  source_type :: string
  original_timestamp :: date
  ev_user_id :: "string option"
  raw_mode :: "string option"
  context_version :: "int option"

text \<open>A row of \<open>dev_user_context\<close>.\<close>

record user_context =
  ctx_pc_tag_norm :: js_string
  started_at :: date
  ended_at :: "date option"
  ctx_project_id :: "string option"
  ctx_project_slug :: "string option"
  ctx_project_name :: "string option"
  ctx_user_id :: "string option"
  ctx_mode :: "string option"
  ctx_dev_team :: "string option"

text \<open>
  The idempotency key is the template string
  \<^verbatim>\<open>`chad:${mode}:${seg.projectId}:${seg.segmentStart.toISOString()}:${seg.segmentEnd.toISOString()}`\<close>;
  it is kept as the tuple of its four interpolated values (an ISO string names one
  millisecond).
\<close>

datatype idempotency = ChadKey string string date date

text \<open>
  A row of \<open>dev_session_logs\<close>, with the columns of the \<open>INSERT\<close> (\<open>pc_tag\<close> is
  \<open>log_pc_tag\<close>, \<open>lane\<close> is \<open>log_lane\<close>). The bookkeeping column \<open>updated_at\<close>, set to
  \<open>NOW()\<close> on conflict, is not modelled.
\<close>

record session_log =
  idempotency_key :: "idempotency option"
  log_pc_tag :: "js_string option"
  pc_tag_norm :: js_string
  project_id :: string
  project_slug :: string
  user_id :: "string option"
  mode :: string
  log_lane :: string
  window_start :: date
  window_end :: date
  segment_start :: date
  segment_end :: date
  first_ts :: date
  last_ts :: date
  raw_refs :: "int list"
  raw_count :: int
  message_count :: int
  context_version_min :: "int option"
  context_version_max :: "int option"
  status :: string

text \<open>The database; any further store (\<open>dev_ai_sessions\<close>, ...) is in the record's extension.\<close>

record database =
  dev_transcripts_raw :: "raw_event list"
  dev_user_context :: "user_context list"
  dev_session_logs :: "session_log list"

section \<open>Resolver\<close>

text \<open>
  \<^verbatim>\<open>SELECT ... FROM dev_user_context
  WHERE pc_tag_norm = $1 AND started_at <= $2 AND (ended_at IS NULL OR ended_at > $2)
  ORDER BY started_at DESC LIMIT 1\<close>
  and \<open>result.rows[0] || null\<close>. Among rows with the same latest \<open>started_at\<close> SQL may
  return any; the model takes the first in table order. No theorem below depends on that
  choice.
\<close>

definition resolveContext :: "'a database_scheme \<Rightarrow> date \<Rightarrow> js_string \<Rightarrow> user_context option" where
  "resolveContext client timestamp pcTag =
     (let rows = filter (\<lambda>r. ctx_pc_tag_norm r = pcTag \<and> started_at r \<le> timestamp \<and>
                            (case ended_at r of None \<Rightarrow> True | Some e \<Rightarrow> e > timestamp))
                        (dev_user_context client)
      in case sort_key (\<lambda>r. - started_at r) rows of [] \<Rightarrow> None | r # _ \<Rightarrow> Some r)"

section \<open>Segmenter\<close>

text \<open>JavaScript's \<open>a || b\<close> on values that are a string, \<open>null\<close> or \<open>undefined\<close>.\<close>

definition truthy :: "string option \<Rightarrow> bool" where
  "truthy v = (case v of None \<Rightarrow> False | Some s \<Rightarrow> s \<noteq> [])"

definition js_or :: "string option \<Rightarrow> string option \<Rightarrow> string option" where
  "js_or a b = (if truthy a then a else b)"

definition js_or_str :: "string option \<Rightarrow> string \<Rightarrow> string" where
  "js_or_str a d = (case a of None \<Rightarrow> d | Some s \<Rightarrow> if s = [] then d else s)"

text \<open>\<open>ctx?.field\<close>: \<open>undefined\<close> when \<open>ctx\<close> is \<open>null\<close>.\<close>

definition opt_chain :: "user_context option \<Rightarrow> (user_context \<Rightarrow> string option) \<Rightarrow> string option" where
  "opt_chain ctx field = (case ctx of None \<Rightarrow> None | Some c \<Rightarrow> field c)"

record segment =
  projectId :: string
  projectSlug :: string
  userId :: "string option"
  pcTag :: "js_string option"
  seg_mode :: string
  lane :: string
  segmentStart :: date
  segmentEnd :: "date option"
  events :: "raw_event list"
  contextVersions :: "int list"

text \<open>
  The body of \<open>for (const event of rawEvents)\<close>, on the loop's two variables \<open>segments\<close>
  and \<open>currentSegment\<close> (\<open>None\<close> is \<open>null\<close>).
\<close>

definition eventContext :: "host \<Rightarrow> 'a database_scheme \<Rightarrow> raw_event \<Rightarrow> user_context option" where
  "eventContext h client event =
     resolveContext client (original_timestamp event) (normalizePcTag h (pc_tag event))"

definition eventProjectId :: "host \<Rightarrow> 'a database_scheme \<Rightarrow> raw_event \<Rightarrow> string" where
  "eventProjectId h client event =
     js_or_str (opt_chain (eventContext h client event) ctx_project_id) ''UNASSIGNED''"

definition newSegment :: "user_context option \<Rightarrow> string \<Rightarrow> raw_event \<Rightarrow> segment" where
  "newSegment ctx md event =
     \<lparr> projectId = js_or_str (opt_chain ctx ctx_project_id) ''UNASSIGNED'',
       projectSlug = js_or_str (opt_chain ctx ctx_project_slug) ''unassigned'',
       userId = js_or (opt_chain ctx ctx_user_id) (ev_user_id event),
       pcTag = pc_tag event,
       seg_mode = md,
       lane = js_or_str (js_or (opt_chain ctx ctx_mode) (raw_mode event)) md,
       segmentStart = original_timestamp event,
       segmentEnd = None,
       events = [],
       contextVersions = [] \<rparr>"

definition pushEvent :: "raw_event \<Rightarrow> segment \<Rightarrow> segment" where
  "pushEvent event cur =
     cur\<lparr> events := events cur @ [event],
          contextVersions := (case context_version event of
                                None \<Rightarrow> contextVersions cur
                              | Some v \<Rightarrow> contextVersions cur @ [v]) \<rparr>"

definition segmentStep ::
  "host \<Rightarrow> 'a database_scheme \<Rightarrow> string \<Rightarrow> raw_event \<Rightarrow> segment list \<times> segment option
     \<Rightarrow> segment list \<times> segment option" where
  "segmentStep h client md event st =
     (let segments = fst st; currentSegment = snd st;
          ctx = eventContext h client event;
          projectId' = js_or_str (opt_chain ctx ctx_project_id) ''UNASSIGNED''
      in case currentSegment of
           None \<Rightarrow> (segments, Some (pushEvent event (newSegment ctx md event)))
         | Some cur \<Rightarrow>
             if projectId cur \<noteq> projectId'
             then (segments @ [cur\<lparr>segmentEnd := Some (original_timestamp event)\<rparr>],
                   Some (pushEvent event (newSegment ctx md event)))
             else (segments, Some (pushEvent event cur)))"

fun segmentLoop ::
  "host \<Rightarrow> 'a database_scheme \<Rightarrow> string \<Rightarrow> raw_event list \<Rightarrow> segment list \<times> segment option
     \<Rightarrow> segment list \<times> segment option" where
  "segmentLoop h client md [] st = st"
| "segmentLoop h client md (event # rest) st =
     segmentLoop h client md rest (segmentStep h client md event st)"

text \<open>
  \<^verbatim>\<open>if (currentSegment && currentSegment.events.length > 0) {
    currentSegment.segmentEnd =
      currentSegment.events[currentSegment.events.length - 1].original_timestamp;
    segments.push(currentSegment); }\<close>
\<close>

definition flushLast :: "segment list \<times> segment option \<Rightarrow> segment list" where
  "flushLast st =
     (case snd st of
        None \<Rightarrow> fst st
      | Some cur \<Rightarrow>
          if events cur \<noteq> []
          then fst st @ [cur\<lparr>segmentEnd := Some (original_timestamp (last (events cur)))\<rparr>]
          else fst st)"

definition buildSegments ::
  "host \<Rightarrow> 'a database_scheme \<Rightarrow> string \<Rightarrow> raw_event list \<Rightarrow> segment list" where
  "buildSegments h client md rawEvents = flushLast (segmentLoop h client md rawEvents ([], None))"

section \<open>Aggregate writer\<close>

text \<open>
  \<^verbatim>\<open>seg.contextVersions.length > 0 ? Math.min(...seg.contextVersions) : null\<close> and the
  same with \<open>Math.max\<close>.
\<close>

definition versionMin :: "int list \<Rightarrow> int option" where
  "versionMin cvs = (case cvs of [] \<Rightarrow> None | v # vs \<Rightarrow> Some (fold min vs v))"

definition versionMax :: "int list \<Rightarrow> int option" where
  "versionMax cvs = (case cvs of [] \<Rightarrow> None | v # vs \<Rightarrow> Some (fold max vs v))"

text \<open>
  The \<open>VALUES\<close> row of the \<open>INSERT\<close>, parameters \<open>$1\<close> to \<open>$19\<close> and the literal
  \<open>'active'\<close>; \<open>e\<close> is the segment's non-null \<open>segmentEnd\<close>.
\<close>

definition insertValues ::
  "host \<Rightarrow> string \<Rightarrow> date \<Rightarrow> date \<Rightarrow> segment \<Rightarrow> date \<Rightarrow> session_log" where
  "insertValues h md windowStart windowEnd seg e =
     \<lparr> idempotency_key = Some (ChadKey md (projectId seg) (segmentStart seg) e),
       log_pc_tag = pcTag seg,
       pc_tag_norm = normalizePcTag h (pcTag seg),
       project_id = projectId seg,
       project_slug = projectSlug seg,
       user_id = userId seg,
       mode = md,
       log_lane = lane seg,
       window_start = windowStart,
       window_end = windowEnd,
       segment_start = segmentStart seg,
       segment_end = e,
       first_ts = segmentStart seg,
       last_ts = e,
       raw_refs = map ev_id (events seg),
       raw_count = int (length (events seg)),
       message_count = int (length (events seg)),
       context_version_min = versionMin (contextVersions seg),
       context_version_max = versionMax (contextVersions seg),
       status = ''active'' \<rparr>"

text \<open>SQL \<open>GREATEST\<close> of two values skips \<open>NULL\<close>.\<close>

definition sql_greatest :: "int option \<Rightarrow> int option \<Rightarrow> int option" where
  "sql_greatest a b =
     (case a of None \<Rightarrow> b | Some x \<Rightarrow> (case b of None \<Rightarrow> Some x | Some y \<Rightarrow> Some (max x y)))"

text \<open>
  \<^verbatim>\<open>ON CONFLICT (idempotency_key) DO UPDATE SET
    last_ts = GREATEST(dev_session_logs.last_ts, EXCLUDED.last_ts),
    segment_end = GREATEST(dev_session_logs.segment_end, EXCLUDED.segment_end),
    raw_refs = dev_session_logs.raw_refs || EXCLUDED.raw_refs,
    raw_count = dev_session_logs.raw_count + EXCLUDED.raw_count,
    message_count = dev_session_logs.message_count + EXCLUDED.message_count,
    context_version_max = GREATEST(dev_session_logs.context_version_max,
                                   EXCLUDED.context_version_max),
    updated_at = NOW()\<close>
  The timestamps of both rows are non-null, so their \<open>GREATEST\<close> is \<open>max\<close>; \<open>||\<close> on two
  jsonb arrays concatenates them.
\<close>

definition onConflict :: "session_log \<Rightarrow> session_log \<Rightarrow> session_log" where
  "onConflict old excluded =
     old\<lparr> last_ts := max (last_ts old) (last_ts excluded),
          segment_end := max (segment_end old) (segment_end excluded),
          raw_refs := raw_refs old @ raw_refs excluded,
          raw_count := raw_count old + raw_count excluded,
          message_count := message_count old + message_count excluded,
          context_version_max :=
            sql_greatest (context_version_max old) (context_version_max excluded) \<rparr>"

text \<open>
  \<open>INSERT ... ON CONFLICT (idempotency_key) DO UPDATE\<close> on the table as a list of rows:
  the row with the same key is updated in place, otherwise the new row is appended.
\<close>

fun upsert :: "session_log \<Rightarrow> session_log list \<Rightarrow> session_log list" where
  "upsert new [] = [new]"
| "upsert new (old # rest) =
     (if idempotency_key old = idempotency_key new then onConflict old new # rest
      else old # upsert new rest)"

datatype error = TypeError

text \<open>
  \<open>for (const seg of segments)\<close>: \<open>seg.segmentEnd.toISOString()\<close> throws on \<open>null\<close>.
\<close>

fun writeSegments ::
  "host \<Rightarrow> string \<Rightarrow> date \<Rightarrow> date \<Rightarrow> segment list \<Rightarrow> session_log list
     \<Rightarrow> error + session_log list" where
  "writeSegments h md windowStart windowEnd [] logs = Inr logs"
| "writeSegments h md windowStart windowEnd (seg # rest) logs =
     (case segmentEnd seg of
        None \<Rightarrow> Inl TypeError
      | Some e \<Rightarrow>
          writeSegments h md windowStart windowEnd rest
            (upsert (insertValues h md windowStart windowEnd seg e) logs))"

section \<open>One tick\<close>

text \<open>
  \<^verbatim>\<open>SELECT ... FROM dev_transcripts_raw
  WHERE original_timestamp >= $1 AND original_timestamp < $2 AND source_type = $3
  ORDER BY original_timestamp ASC\<close>
  Rows with equal timestamps come in table order here (SQL leaves their order open).
\<close>

definition fetchRawEvents :: "'a database_scheme \<Rightarrow> date \<Rightarrow> date \<Rightarrow> string \<Rightarrow> raw_event list" where
  "fetchRawEvents client windowStart windowEnd md =
     sort_key original_timestamp
       (filter (\<lambda>e. original_timestamp e \<ge> windowStart \<and> original_timestamp e < windowEnd \<and>
                     source_type e = md)
               (dev_transcripts_raw client))"

text \<open>
  \<open>processTick\<close>, from the clock reading \<open>now\<close> and the database before the transaction
  to the database after it. \<open>COMMIT\<close> keeps the writes; the \<open>catch\<close> branch rolls back
  to the database as it was.
\<close>

definition processTick :: "host \<Rightarrow> date \<Rightarrow> 'a database_scheme \<Rightarrow> 'a database_scheme" where
  "processTick h now db =
     (let tickTime = floorToQuarterHour h now;
          md = tickMode h now;
          windowEnd = tickTime;
          windowStart = tickTime - 30 * 60 * 1000;
          rawEvents = fetchRawEvents db windowStart windowEnd md
      in if rawEvents = [] then db
         else
           let segments = buildSegments h db md rawEvents
           in case writeSegments h md windowStart windowEnd segments (dev_session_logs db) of
                Inl err \<Rightarrow> db
              | Inr logs \<Rightarrow> db\<lparr>dev_session_logs := logs\<rparr>)"

section \<open>Auxiliary notions for the proofs\<close>

text \<open>The \<open>context_version\<close> values present on a list of events, in order.\<close>

definition versionsOf :: "raw_event list \<Rightarrow> int list" where
  "versionsOf es = List.map_filter context_version es"

text \<open>
  What holds of every segment the loop has built: it has events, all resolved to its
  key, and its start, tag, mode and versions come from its events.
\<close>

definition seg_ok :: "host \<Rightarrow> 'a database_scheme \<Rightarrow> string \<Rightarrow> segment \<Rightarrow> bool" where
  "seg_ok h client md s \<longleftrightarrow>
     events s \<noteq> [] \<and>
     list_all (\<lambda>e. eventProjectId h client e = projectId s) (events s) \<and>
     segmentStart s = original_timestamp (hd (events s)) \<and>
     pcTag s = pc_tag (hd (events s)) \<and>
     seg_mode s = md \<and>
     contextVersions s = versionsOf (events s)"

text \<open>Two neighbouring segments: the key changes, and the first ends where the second starts.\<close>

definition linked :: "segment \<Rightarrow> segment \<Rightarrow> bool" where
  "linked a b \<longleftrightarrow> projectId a \<noteq> projectId b \<and> segmentEnd a = Some (segmentStart b)"

text \<open>The loop state as one list: the flushed segments, then the open one.\<close>

definition open_list :: "segment list \<times> segment option \<Rightarrow> segment list" where
  "open_list st = fst st @ (case snd st of None \<Rightarrow> [] | Some cur \<Rightarrow> [cur])"

definition loop_inv ::
  "host \<Rightarrow> 'a database_scheme \<Rightarrow> string \<Rightarrow> segment list \<times> segment option \<Rightarrow> bool" where
  "loop_inv h client md st \<longleftrightarrow>
     list_all (seg_ok h client md) (open_list st) \<and>
     successively linked (open_list st) \<and>
     (snd st = None \<longrightarrow> fst st = [])"

text \<open>
  Two kinds of host clock: one offset at all times, and offsets that differ from one
  another by whole half hours (every fixed offset, and every zone whose daylight-saving
  or other changes are by a multiple of thirty minutes).
\<close>

definition fixed_offset :: "host \<Rightarrow> int \<Rightarrow> bool" where
  "fixed_offset h tza \<longleftrightarrow> (\<forall>t u. LocalTZA h t u = tza)"

definition half_hour_steps :: "host \<Rightarrow> bool" where
  "half_hour_steps h \<longleftrightarrow> (\<forall>t u a b. 1800000 dvd (LocalTZA h t a - LocalTZA h u b))"

text \<open>
  What \<open>String.prototype.toLowerCase\<close> does on a string of ASCII units: \<open>A\<close>-\<open>Z\<close>
  become \<open>a\<close>-\<open>z\<close>, unit by unit, and nothing else changes. A host is
  \<open>ascii_lowercasing\<close> when its case conversion does that; an ECMAScript host is.
\<close>

definition ascii_lower :: "code_unit \<Rightarrow> code_unit" where
  "ascii_lower c = (if 0x41 \<le> c \<and> c \<le> 0x5A then c + 0x20 else c)"

definition ascii_lowercasing :: "host \<Rightarrow> bool" where
  "ascii_lowercasing h \<longleftrightarrow>
     (\<forall>s. list_all (\<lambda>c. c < 0x80) s \<longrightarrow> toLowerCase h s = map ascii_lower s)"

section \<open>Concrete hosts\<close>

text \<open>
  A lower-casing that agrees with \<open>String.prototype.toLowerCase\<close> on every string made
  of ASCII units, \<open>U+0130\<close> (capital I with dot above, which becomes the two units
  \<open>U+0069 U+0307\<close>) and \<open>U+212A\<close> (the Kelvin sign, which becomes \<open>k\<close>). It is used
  only on such strings.
\<close>

definition sample_toLowerCase :: "js_string \<Rightarrow> js_string" where
  "sample_toLowerCase s =
     concat (map (\<lambda>c. if 0x41 \<le> c \<and> c \<le> 0x5A then [c + 0x20]
                       else if c = 0x130 then [0x69, 0x307]
                       else if c = 0x212A then [0x6B]
                       else [c]) s)"

text \<open>A host on UTC.\<close>

definition utc_host :: host where
  "utc_host = \<lparr> LocalTZA = (\<lambda>t isUTC. 0), toLowerCase = sample_toLowerCase \<rparr>"

text \<open>
  A host in \<open>America/New_York\<close> around the end of daylight saving time on 1 November
  2026: at 06:00:00 UTC (1793512800000) the offset goes from four hours behind UTC to five,
  and the local clock goes from 02:00 back to 01:00. A local reading before 02:00 of that
  day (1793498400000 as a local time value) is read with the earlier offset, so the
  repeated hour is taken as daylight time.
\<close>

definition new_york_host :: host where
  "new_york_host =
     \<lparr> LocalTZA = (\<lambda>t isUTC.
          if isUTC then (if t < 1793512800000 then - 14400000 else - 18000000)
          else (if t < 1793498400000 then - 14400000 else - 18000000)),
       toLowerCase = sample_toLowerCase \<rparr>"

section \<open>A concrete window\<close>

text \<open>
  Times are milliseconds of 1 January 1970, UTC: 09:00 is 32400000, 10:00 is 36000000,
  10:05 is 36300000, 10:10 is 36600000, 10:15 is 36900000, 10:20 is 37200000 and 10:30 is
  37800000. Device \<open>PC-1\<close> works on project \<open>P1\<close> until 10:15 and on \<open>P2\<close> from then on.
\<close>

definition demo_context :: "user_context list" where
  "demo_context =
     [\<lparr> ctx_pc_tag_norm = js ''pc-1'', started_at = 32400000, ended_at = Some 36900000,
         ctx_project_id = Some ''P1'', ctx_project_slug = Some ''p-one'',
         ctx_project_name = None, ctx_user_id = Some ''u1'', ctx_mode = None,
         ctx_dev_team = None \<rparr>,
      \<lparr> ctx_pc_tag_norm = js ''pc-1'', started_at = 36900000, ended_at = None,
         ctx_project_id = Some ''P2'', ctx_project_slug = Some ''p-two'',
         ctx_project_name = None, ctx_user_id = Some ''u1'', ctx_mode = None,
         ctx_dev_team = None \<rparr>]"

definition demo_event :: "int \<Rightarrow> string \<Rightarrow> date \<Rightarrow> int option \<Rightarrow> raw_event" where
  "demo_event i tag t v =
     \<lparr> ev_id = i, pc_tag = Some (js tag), source_type = ''internal'', original_timestamp = t,
       ev_user_id = None, raw_mode = None, context_version = v \<rparr>"

definition demo_events :: "raw_event list" where
  "demo_events =
     [demo_event 1 ''PC-1'' 36300000 (Some 5), demo_event 2 ''PC-1'' 36600000 None,
      demo_event 3 ''PC-1'' 37200000 (Some 7)]"

definition demo_db :: database where
  "demo_db = \<lparr> dev_transcripts_raw = demo_events, dev_user_context = demo_context,
               dev_session_logs = [] \<rparr>"

text \<open>Two events of a device no context row names.\<close>

definition demo_unassigned :: "raw_event list" where
  "demo_unassigned =
     [demo_event 4 ''Laptop'' 36300000 None, demo_event 5 ''Laptop'' 36600000 (Some 2)]"

text \<open>Five events, four of \<open>PC-1\<close> (versions 5, 3, none, 9) and one of an unknown device.\<close>

definition demo_versions :: "raw_event list" where
  "demo_versions =
     [demo_event 6 ''PC-1'' 36300000 (Some 5), demo_event 7 ''PC-1'' 36400000 (Some 3),
      demo_event 8 ''PC-1'' 36500000 None, demo_event 9 ''PC-1'' 36600000 (Some 9),
      demo_event 10 ''Laptop'' 36700000 None]"

text \<open>A row a downstream job has already marked \<open>cleaned\<close>, with the key of the P1 segment.\<close>

definition demo_cleaned_row :: session_log where
  "demo_cleaned_row =
     \<lparr> idempotency_key = Some (ChadKey ''internal'' ''P1'' 36300000 37200000),
       log_pc_tag = Some (js ''PC-1''), pc_tag_norm = js ''pc-1'', project_id = ''P1'',
       project_slug = ''p-one'', user_id = Some ''u1'', mode = ''internal'',
       log_lane = ''internal'', window_start = 36000000, window_end = 37800000,
       segment_start = 36300000, segment_end = 37200000, first_ts = 36300000,
       last_ts = 37200000, raw_refs = [1, 2], raw_count = 2, message_count = 2,
       context_version_min = Some 5, context_version_max = Some 5, status = ''cleaned'' \<rparr>"

text \<open>An event of 10:07 that reaches the raw table after the window was first processed.\<close>

definition demo_late_event :: raw_event where
  "demo_late_event = demo_event 11 ''PC-1'' 36420000 (Some 2)"

section \<open>Lemmas: time aligner\<close>

lemma quarter_of_hour: "(m::int) mod 60 div 15 = m div 15 mod 4"
proof -
  have "m mod 60 = 15 * (m div 15 mod 4) + m mod 15"
    using zmod_zmult2_eq[of 4 m 15] by simp
  then show ?thesis by simp
qed

lemma minutes_arith:
  fixes m :: int
  shows "(m div 1440) * 1440 + ((m div 60) mod 24) * 60 + (m mod 60 div 15) * 15 = (m div 15) * 15"
proof -
  define q where "q = m div 15"
  have a: "m div 60 = q div 4" unfolding q_def by (simp add: div_mult2_eq[symmetric])
  have b: "m div 1440 = q div 4 div 24" unfolding q_def by (simp add: div_mult2_eq[symmetric])
  have c: "m mod 60 div 15 = q mod 4" unfolding q_def by (rule quarter_of_hour)
  have d: "(q div 4) mod 24 = q div 4 - (q div 4 div 24) * 24"
    by (simp add: minus_div_mult_eq_mod [symmetric])
  have e: "q mod 4 = q - (q div 4) * 4"
    by (simp add: minus_div_mult_eq_mod [symmetric])
  show ?thesis unfolding a b c d e q_def[symmetric] by (simp add: algebra_simps)
qed

lemma local_floor:
  "MakeDate (Day t) (MakeTime (HourFromTime t) (MinFromTime t div 15 * 15) 0 0) = t div 900000 * 900000"
proof -
  define m where "m = t div 60000"
  have d: "t div 86400000 = m div 1440"
    unfolding m_def by (simp add: div_mult2_eq[symmetric])
  have h: "t div 3600000 = m div 60"
    unfolding m_def by (simp add: div_mult2_eq[symmetric])
  have q: "t div 900000 = m div 15"
    unfolding m_def by (simp add: div_mult2_eq[symmetric])
  have "(m div 1440) * 86400000 + ((m div 60) mod 24) * 3600000 + (m mod 60 div 15) * 15 * 60000
        = ((m div 1440) * 1440 + ((m div 60) mod 24) * 60 + (m mod 60 div 15) * 15) * 60000"
    by (simp add: algebra_simps)
  also have "\<dots> = (m div 15) * 15 * 60000"
    by (simp only: minutes_arith)
  finally show ?thesis
    unfolding MakeDate_def MakeTime_def Day_def HourFromTime_def MinFromTime_def d h q m_def[symmetric]
    by simp
qed

lemma floorToQuarterHour_local:
  "floorToQuarterHour h d = UTC h (LocalTime h d div 900000 * 900000)"
  unfolding floorToQuarterHour_def setMinutes3_def Let_def getMinutes_def
  by (simp only: local_floor)


lemma clock_face:
  "MakeDate (Day t) (MakeTime (HourFromTime t) (MinFromTime t) (SecFromTime t) (msFromTime t)) = t"
proof -
  define s where "s = t div 1000"
  define m where "m = s div 60"
  define h where "h = m div 60"
  have ts: "t mod 1000 = t - s * 1000"
    unfolding s_def by (simp add: minus_div_mult_eq_mod [symmetric])
  have sm: "s mod 60 = s - m * 60"
    unfolding m_def by (simp add: minus_div_mult_eq_mod [symmetric])
  have mh: "m mod 60 = m - h * 60"
    unfolding h_def by (simp add: minus_div_mult_eq_mod [symmetric])
  have hd: "h mod 24 = h - (h div 24) * 24"
    by (simp add: minus_div_mult_eq_mod [symmetric])
  have m': "t div 60000 = m"
    unfolding m_def s_def by (simp add: div_mult2_eq[symmetric])
  have h': "t div 3600000 = h"
    unfolding h_def m_def s_def by (simp add: div_mult2_eq[symmetric])
  have d': "t div 86400000 = h div 24"
    unfolding h_def m_def s_def by (simp add: div_mult2_eq[symmetric])
  show ?thesis
    unfolding MakeDate_def MakeTime_def Day_def HourFromTime_def MinFromTime_def SecFromTime_def
      msFromTime_def m' h' d' s_def[symmetric] ts sm mh hd
    by (simp add: algebra_simps)
qed

lemma setMinutes1_shift:
  "setMinutes1 h d (getMinutes h d + k) = UTC h (LocalTime h d + k * 60000)"
proof -
  define t where "t = LocalTime h d"
  have "MakeDate (Day t) (MakeTime (HourFromTime t) (MinFromTime t + k) (SecFromTime t) (msFromTime t))
        = MakeDate (Day t) (MakeTime (HourFromTime t) (MinFromTime t) (SecFromTime t) (msFromTime t)) + k * 60000"
    unfolding MakeDate_def MakeTime_def by (simp add: algebra_simps)
  also have "\<dots> = t + k * 60000" by (simp only: clock_face)
  finally show ?thesis
    unfolding setMinutes1_def setMinutes3_def Let_def getMinutes_def getSeconds_def
      getMilliseconds_def t_def[symmetric]
    by simp
qed

lemma fixed_offset_half_hour: "fixed_offset h tza \<Longrightarrow> half_hour_steps h"
  by (simp add: fixed_offset_def half_hour_steps_def)

lemma floorToQuarterHour_fixed:
  assumes "fixed_offset h tza"
  shows "floorToQuarterHour h t = ((t + tza) div 900000) * 900000 - tza"
  using assms by (simp add: floorToQuarterHour_local UTC_def LocalTime_def fixed_offset_def)

lemma msUntilNextQuarter_fixed:
  assumes "fixed_offset h tza"
  shows "msUntilNextQuarter h now = 900000 - (now + tza) mod 900000"
proof -
  have "msUntilNextQuarter h now = floorToQuarterHour h now + 15 * 60000 - now"
    unfolding msUntilNextQuarter_def Let_def setMinutes1_shift
    using assms by (simp add: UTC_def LocalTime_def fixed_offset_def)
  also have "\<dots> = 900000 - ((now + tza) - ((now + tza) div 900000) * 900000)"
    by (simp add: floorToQuarterHour_fixed[OF assms])
  also have "\<dots> = 900000 - (now + tza) mod 900000"
    by (simp add: minus_div_mult_eq_mod)
  finally show ?thesis .
qed

lemma msUntilNextQuarter_fixed_offset:
  assumes "fixed_offset h tza"
  shows "0 < msUntilNextQuarter h now \<and> msUntilNextQuarter h now \<le> 900000"
proof -
  have "0 \<le> (now + tza) mod 900000" "(now + tza) mod 900000 < 900000"
    by simp_all
  then show ?thesis
    by (simp add: msUntilNextQuarter_fixed[OF assms])
qed




section \<open>Lemmas: segmenter\<close>

lemma versionsOf_snoc:
  "versionsOf (es @ [e]) = (case context_version e of None \<Rightarrow> versionsOf es | Some v \<Rightarrow> versionsOf es @ [v])"
  by (simp add: versionsOf_def List.map_filter_def split: option.split)

lemma newSegment_projectId:
  "projectId (newSegment (eventContext h client e) md e) = eventProjectId h client e"
  by (simp add: newSegment_def eventProjectId_def)

lemma seg_ok_new: "seg_ok h client md (pushEvent e (newSegment (eventContext h client e) md e))"
  by (simp add: seg_ok_def pushEvent_def newSegment_def eventProjectId_def versionsOf_def
      List.map_filter_def split: option.split)

lemma seg_ok_push:
  "seg_ok h client md cur \<Longrightarrow> projectId cur = eventProjectId h client e \<Longrightarrow> seg_ok h client md (pushEvent e cur)"
  by (simp add: seg_ok_def pushEvent_def versionsOf_snoc split: option.split)

lemma seg_ok_close: "seg_ok h client md cur \<Longrightarrow> seg_ok h client md (cur\<lparr>segmentEnd := x\<rparr>)"
  by (simp add: seg_ok_def)

lemma successively_snoc:
  "successively P (xs @ [a]) \<longleftrightarrow> successively P xs \<and> (xs = [] \<or> P (last xs) a)"
  by (simp add: successively_append_iff)

lemma successively_last_change:
  "successively P (xs @ [a]) \<Longrightarrow> (\<And>x. P x a \<Longrightarrow> P x b) \<Longrightarrow> successively P (xs @ [b])"
  by (auto simp: successively_snoc)

lemma linked_push: "linked x cur \<Longrightarrow> linked x (pushEvent e cur)"
  by (simp add: linked_def pushEvent_def)

lemma linked_close: "linked x cur \<Longrightarrow> linked x (cur\<lparr>segmentEnd := y\<rparr>)"
  by (simp add: linked_def)

lemma events_step:
  "concat (map events (open_list (segmentStep h client md e st))) = concat (map events (open_list st)) @ [e]"
  by (cases st; cases "snd st")
     (auto simp: segmentStep_def open_list_def Let_def pushEvent_def newSegment_def)

lemma inv_step:
  assumes "loop_inv h client md st"
  shows "loop_inv h client md (segmentStep h client md e st)"
proof (cases st)
  case (Pair S c)
  show ?thesis
  proof (cases c)
    case None
    with Pair assms show ?thesis
      by (simp add: loop_inv_def open_list_def segmentStep_def Let_def seg_ok_new)
  next
    case (Some cur)
    let ?new = "pushEvent e (newSegment (eventContext h client e) md e)"
    from assms Pair Some have ok: "list_all (seg_ok h client md) S" "seg_ok h client md cur"
      and suc: "successively linked (S @ [cur])"
      by (simp_all add: loop_inv_def open_list_def)
    show ?thesis
    proof (cases "projectId cur = eventProjectId h client e")
      case True
      have "successively linked (S @ [pushEvent e cur])"
        using suc by (rule successively_last_change) (rule linked_push)
      with True ok Pair Some show ?thesis
        by (simp add: loop_inv_def open_list_def segmentStep_def Let_def eventProjectId_def[symmetric] seg_ok_push)
    next
      case False
      let ?closed = "cur\<lparr>segmentEnd := Some (original_timestamp e)\<rparr>"
      have 1: "successively linked (S @ [?closed])"
        using suc by (rule successively_last_change) (rule linked_close)
      have 2: "linked ?closed ?new"
        using False by (simp add: linked_def pushEvent_def newSegment_def eventProjectId_def)
      have "successively linked ((S @ [?closed]) @ [?new])"
        using 1 2 by (subst successively_snoc) simp
      with False ok Pair Some show ?thesis
        by (simp add: loop_inv_def open_list_def segmentStep_def Let_def eventProjectId_def[symmetric]
            seg_ok_new seg_ok_close)
    qed
  qed
qed

lemma step_open: "snd (segmentStep h client md e st) \<noteq> None"
  by (simp add: segmentStep_def Let_def split: option.split)

lemma inv_loop:
  "loop_inv h client md st \<Longrightarrow> loop_inv h client md (segmentLoop h client md es st)"
  by (induction es arbitrary: st) (simp_all add: inv_step)

lemma events_loop:
  "concat (map events (open_list (segmentLoop h client md es st))) = concat (map events (open_list st)) @ es"
  by (induction es arbitrary: st) (simp_all add: events_step)

lemma loop_open: "snd st \<noteq> None \<Longrightarrow> snd (segmentLoop h client md es st) \<noteq> None"
proof (induction es arbitrary: st)
  case Nil
  then show ?case by simp
next
  case (Cons e es)
  have "snd (segmentLoop h client md es (segmentStep h client md e st)) \<noteq> None"
    by (rule Cons.IH) (rule step_open)
  then show ?case by simp
qed

lemma loop_open_nonempty: "es \<noteq> [] \<Longrightarrow> snd (segmentLoop h client md es st) \<noteq> None"
proof (cases es)
  case Nil
  assume "es \<noteq> []"
  with Nil show ?thesis by simp
next
  case (Cons e rest)
  have "snd (segmentLoop h client md rest (segmentStep h client md e st)) \<noteq> None"
    by (rule loop_open) (rule step_open)
  with Cons show ?thesis by simp
qed

lemma inv_init: "loop_inv h client md ([], None)"
  by (simp add: loop_inv_def open_list_def)

lemma build_empty: "buildSegments h client md [] = []"
  by (simp add: buildSegments_def flushLast_def)

lemma build_shape:
  assumes "es \<noteq> []"
  obtains S cur where
    "buildSegments h client md es = S @ [cur\<lparr>segmentEnd := Some (original_timestamp (last (events cur)))\<rparr>]"
    "list_all (seg_ok h client md) (S @ [cur])"
    "successively linked (S @ [cur])"
    "concat (map events (S @ [cur])) = es"
proof -
  obtain S c where st: "segmentLoop h client md es ([], None) = (S, c)"
    by (cases "segmentLoop h client md es ([], None)")
  from loop_open_nonempty[OF assms, of h client md "([], None)"] st
  obtain cur where c: "c = Some cur" by auto
  have inv: "loop_inv h client md (S, Some cur)"
    using inv_loop[OF inv_init, of h client md es] st c by simp
  then have ok: "list_all (seg_ok h client md) (S @ [cur])" and suc: "successively linked (S @ [cur])"
    by (simp_all add: loop_inv_def open_list_def)
  have ev: "concat (map events (S @ [cur])) = es"
    using events_loop[of h client md es "([], None)"] st c by (simp add: open_list_def)
  from ok have "events cur \<noteq> []" by (simp add: seg_ok_def)
  then have "buildSegments h client md es = S @ [cur\<lparr>segmentEnd := Some (original_timestamp (last (events cur)))\<rparr>]"
    by (simp add: buildSegments_def flushLast_def st c)
  then show thesis using ok suc ev by (rule that)
qed

lemma build_events: "concat (map events (buildSegments h client md es)) = es"
proof (cases "es = []")
  case True
  then show ?thesis by (simp add: build_empty)
next
  case False
  then obtain S cur where
    "buildSegments h client md es = S @ [cur\<lparr>segmentEnd := Some (original_timestamp (last (events cur)))\<rparr>]"
    "concat (map events (S @ [cur])) = es"
    by (rule build_shape)
  then show ?thesis by simp
qed

lemma build_ok: "list_all (seg_ok h client md) (buildSegments h client md es)"
proof (cases "es = []")
  case True
  then show ?thesis by (simp add: build_empty)
next
  case False
  then obtain S cur where
    "buildSegments h client md es = S @ [cur\<lparr>segmentEnd := Some (original_timestamp (last (events cur)))\<rparr>]"
    "list_all (seg_ok h client md) (S @ [cur])"
    by (rule build_shape)
  then show ?thesis by (simp add: seg_ok_close)
qed

lemma build_linked: "successively linked (buildSegments h client md es)"
proof (cases "es = []")
  case True
  then show ?thesis by (simp add: build_empty)
next
  case False
  then obtain S cur where
    b: "buildSegments h client md es = S @ [cur\<lparr>segmentEnd := Some (original_timestamp (last (events cur)))\<rparr>]"
    and suc: "successively linked (S @ [cur])"
    by (rule build_shape)
  have "successively linked (S @ [cur\<lparr>segmentEnd := Some (original_timestamp (last (events cur)))\<rparr>])"
    using suc by (rule successively_last_change) (rule linked_close)
  with b show ?thesis by simp
qed

lemma build_last:
  assumes "es \<noteq> []"
  shows "buildSegments h client md es \<noteq> [] \<and>
         segmentEnd (last (buildSegments h client md es)) =
           Some (original_timestamp (last (events (last (buildSegments h client md es)))))"
proof -
  from assms obtain S cur where
    "buildSegments h client md es = S @ [cur\<lparr>segmentEnd := Some (original_timestamp (last (events cur)))\<rparr>]"
    by (rule build_shape)
  then show ?thesis by simp
qed

lemma sorted_concat_blocks:
  "sorted (map f (concat xss)) \<Longrightarrow>
   sorted_wrt (\<lambda>a b. \<forall>x\<in>set a. \<forall>y\<in>set b. f x \<le> (f y :: int)) xss"
proof (induction xss)
  case Nil
  then show ?case by simp
next
  case (Cons xs xss)
  from Cons.prems have "sorted (map f xs @ map f (concat xss))" by simp
  then have tl: "sorted (map f (concat xss))"
    and cross: "\<forall>x\<in>set xs. \<forall>y\<in>set (concat xss). f x \<le> f y"
    by (auto simp: sorted_append)
  from cross have "\<forall>b\<in>set xss. \<forall>x\<in>set xs. \<forall>y\<in>set b. f x \<le> f y" by auto
  with Cons.IH[OF tl] show ?case by simp
qed

lemma build_blocks_sorted:
  assumes "sorted (map original_timestamp es)"
  shows "sorted_wrt (\<lambda>a b. \<forall>x\<in>set (events a). \<forall>y\<in>set (events b).
            original_timestamp x \<le> original_timestamp y) (buildSegments h client md es)"
proof -
  have "sorted (map original_timestamp (concat (map events (buildSegments h client md es))))"
    using assms by (simp only: build_events)
  then have "sorted_wrt (\<lambda>a b. \<forall>x\<in>set a. \<forall>y\<in>set b. original_timestamp x \<le> original_timestamp y)
               (map events (buildSegments h client md es))"
    by (rule sorted_concat_blocks)
  then show ?thesis by (simp add: sorted_wrt_map)
qed

lemma build_starts_sorted:
  assumes "sorted (map original_timestamp es)"
  shows "sorted (map segmentStart (buildSegments h client md es))"
proof -
  have ok: "\<And>s. s \<in> set (buildSegments h client md es) \<Longrightarrow>
              events s \<noteq> [] \<and> segmentStart s = original_timestamp (hd (events s))"
    using build_ok[of h client md es] by (auto simp: list_all_iff seg_ok_def)
  have "sorted_wrt (\<lambda>a b. segmentStart a \<le> segmentStart b) (buildSegments h client md es)"
  proof (rule sorted_wrt_mono_rel[OF _ build_blocks_sorted[OF assms]])
    fix a b
    assume a: "a \<in> set (buildSegments h client md es)" and b: "b \<in> set (buildSegments h client md es)"
      and le: "\<forall>x\<in>set (events a). \<forall>y\<in>set (events b). original_timestamp x \<le> original_timestamp y"
    from ok[OF a] ok[OF b] have "hd (events a) \<in> set (events a)" "hd (events b) \<in> set (events b)"
      by simp_all
    with le have "original_timestamp (hd (events a)) \<le> original_timestamp (hd (events b))" by blast
    with ok[OF a] ok[OF b] show "segmentStart a \<le> segmentStart b" by simp
  qed
  then show ?thesis by (simp add: sorted_wrt_map)
qed

lemma build_keys_distinct_adj: "distinct_adj (map projectId (buildSegments h client md es))"
proof -
  have "successively (\<lambda>a b. projectId a \<noteq> projectId b) (buildSegments h client md es)"
    using build_linked[of h client md es]
    by (rule successively_mono) (simp add: linked_def)
  then show ?thesis by (simp add: distinct_adj_def successively_map)
qed

lemma build_segment_ends:
  assumes "Suc i < length (buildSegments h client md es)"
  shows "segmentEnd (buildSegments h client md es ! i) =
           Some (original_timestamp (hd (events (buildSegments h client md es ! Suc i))))"
proof -
  let ?segs = "buildSegments h client md es"
  have "linked (?segs ! i) (?segs ! Suc i)"
    using build_linked[of h client md es] assms by (simp add: successively_conv_nth)
  moreover have "seg_ok h client md (?segs ! Suc i)"
    using build_ok[of h client md es] assms by (simp add: list_all_length)
  ultimately show ?thesis by (simp add: linked_def seg_ok_def)
qed

lemma runs_keys:
  assumes "list_all (\<lambda>s. events s \<noteq> [] \<and> list_all (\<lambda>e. key e = projectId s) (events s)) segs"
    and "distinct_adj (map projectId segs)"
  shows "remdups_adj (map key (concat (map events segs))) = map projectId segs"
  using assms
proof (induction segs)
  case Nil
  then show ?case by simp
next
  case (Cons s rest)
  let ?xs = "map key (events s)"
  let ?ys = "map key (concat (map events rest))"
  from Cons.prems have ne: "events s \<noteq> []" and all: "list_all (\<lambda>e. key e = projectId s) (events s)"
    and rest: "list_all (\<lambda>s. events s \<noteq> [] \<and> list_all (\<lambda>e. key e = projectId s) (events s)) rest"
    by simp_all
  from Cons.prems(2) have da: "distinct_adj (map projectId rest)"
    by (cases rest) simp_all
  have IH: "remdups_adj ?ys = map projectId rest" using Cons.IH[OF rest da] .
  have xs: "?xs = replicate (length (events s)) (projectId s)"
    using all by (simp add: list_all_iff map_replicate_const[symmetric] cong: map_cong)
  have rx: "remdups_adj ?xs = [projectId s]"
    using ne by (simp add: xs remdups_adj_replicate)
  have lx: "last ?xs = projectId s" using ne by (simp add: xs)
  have "dropWhile (\<lambda>y. y = last ?xs) ?ys = ?ys"
  proof (cases rest)
    case Nil
    then show ?thesis by simp
  next
    case (Cons r rs)
    with rest have "events r \<noteq> []" "list_all (\<lambda>e. key e = projectId r) (events r)" by simp_all
    then have "hd ?ys = projectId r" "?ys \<noteq> []"
      using Cons by (cases "events r"; simp)+
    moreover from Cons.prems(2) Cons have "projectId s \<noteq> projectId r"
      using \<open>distinct_adj (map projectId (s # rest))\<close> by simp
    ultimately show ?thesis using lx by (cases ?ys) auto
  qed
  moreover have "?xs \<noteq> []" using ne by simp
  ultimately have "remdups_adj (?xs @ ?ys) = remdups_adj ?xs @ remdups_adj ?ys"
    by (simp add: remdups_adj_append'')
  then show ?case by (simp add: rx IH)
qed

lemma build_keys: "map projectId (buildSegments h client md es) = remdups_adj (map (eventProjectId h client) es)"
proof -
  have "list_all (\<lambda>s. events s \<noteq> [] \<and> list_all (\<lambda>e. eventProjectId h client e = projectId s) (events s))
          (buildSegments h client md es)"
    using build_ok[of h client md es] by (simp add: list_all_iff seg_ok_def)
  then have "remdups_adj (map (eventProjectId h client) (concat (map events (buildSegments h client md es))))
             = map projectId (buildSegments h client md es)"
    using build_keys_distinct_adj[of h client md es] by (rule runs_keys)
  then show ?thesis by (simp only: build_events)
qed

lemma absent_key: "eventContext h client e = None \<Longrightarrow> eventProjectId h client e = ''UNASSIGNED''"
  by (simp add: eventProjectId_def opt_chain_def js_or_str_def)

lemma all_absent_one_segment:
  assumes "es \<noteq> []" and "\<forall>e\<in>set es. eventContext h client e = None"
  shows "\<exists>s. buildSegments h client md es = [s] \<and> projectId s = ''UNASSIGNED'' \<and> events s = es"
proof -
  have "map (eventProjectId h client) es = replicate (length es) ''UNASSIGNED''"
    using assms(2) by (simp add: absent_key map_replicate_const[symmetric] cong: map_cong)
  then have "map projectId (buildSegments h client md es) = [''UNASSIGNED'']"
    using assms(1) by (simp add: build_keys remdups_adj_replicate)
  then obtain s where s: "buildSegments h client md es = [s]" "projectId s = ''UNASSIGNED''"
    by auto
  with build_events[of h client md es] show ?thesis by simp
qed

lemma segmentStep_resolver:
  assumes "\<And>e. eventContext h db e = eventContext h db' e"
  shows "segmentStep h db md e st = segmentStep h db' md e st"
  unfolding segmentStep_def assms ..

lemma segmentLoop_resolver:
  assumes "\<And>e. eventContext h db e = eventContext h db' e"
  shows "segmentLoop h db md es st = segmentLoop h db' md es st"
proof (induction es arbitrary: st)
  case Nil
  show ?case by simp
next
  case (Cons e es)
  have step: "segmentStep h db md e st = segmentStep h db' md e st"
    using assms by (rule segmentStep_resolver)
  have "segmentLoop h db md es (segmentStep h db' md e st) = segmentLoop h db' md es (segmentStep h db' md e st)"
    by (rule Cons.IH)
  then show ?case by (simp add: step)
qed

lemma buildSegments_resolver:
  assumes "\<forall>ts tag. resolveContext db ts (normalizePcTag h tag) = resolveContext db' ts (normalizePcTag h tag)"
  shows "buildSegments h db md es = buildSegments h db' md es"
proof -
  have "eventContext h db e = eventContext h db' e" for e
    unfolding eventContext_def using assms by blast
  then have "segmentLoop h db md es ([], None) = segmentLoop h db' md es ([], None)"
    by (rule segmentLoop_resolver)
  then show ?thesis unfolding buildSegments_def by (rule arg_cong)
qed

lemma build_first_event:
  assumes "s \<in> set (buildSegments h db md es)"
  shows "pcTag s = pc_tag (hd (events s)) \<and>
         projectId s = js_or_str (opt_chain (resolveContext db (original_timestamp (hd (events s)))
                          (normalizePcTag h (pc_tag (hd (events s))))) ctx_project_id) ''UNASSIGNED''"
proof -
  have ok: "seg_ok h db md s"
    using build_ok[of h db md es] assms by (simp add: list_all_iff)
  then have tag: "pcTag s = pc_tag (hd (events s))" and ne: "events s \<noteq> []"
    and all: "list_all (\<lambda>e. eventProjectId h db e = projectId s) (events s)"
    unfolding seg_ok_def by blast+
  from ne have "hd (events s) \<in> set (events s)" by simp
  with all have "eventProjectId h db (hd (events s)) = projectId s"
    unfolding list_all_iff by (rule bspec)
  then have "projectId s = eventProjectId h db (hd (events s))" by (rule sym)
  then have "projectId s = js_or_str (opt_chain (resolveContext db (original_timestamp (hd (events s)))
                          (normalizePcTag h (pc_tag (hd (events s))))) ctx_project_id) ''UNASSIGNED''"
    unfolding eventProjectId_def eventContext_def .
  with tag show ?thesis by (rule conjI)
qed

section \<open>Lemmas: aggregate writer\<close>

lemma versionMin_Min: "cvs \<noteq> [] \<Longrightarrow> versionMin cvs = Some (Min (set cvs))"
proof (cases cvs)
  case Nil
  assume "cvs \<noteq> []"
  with Nil show ?thesis by simp
next
  case (Cons v vs)
  have "fold min vs v = Min (set (v # vs))" by (rule Min.set_eq_fold[symmetric])
  with Cons show ?thesis by (simp add: versionMin_def)
qed

lemma versionMax_Max: "cvs \<noteq> [] \<Longrightarrow> versionMax cvs = Some (Max (set cvs))"
proof (cases cvs)
  case Nil
  assume "cvs \<noteq> []"
  with Nil show ?thesis by simp
next
  case (Cons v vs)
  have "fold max vs v = Max (set (v # vs))" by (rule Max.set_eq_fold[symmetric])
  with Cons show ?thesis by (simp add: versionMax_def)
qed

lemma set_versionsOf: "set (versionsOf es) = {v. \<exists>e\<in>set es. context_version e = Some v}"
  by (induction es) (auto simp: versionsOf_def List.map_filter_def)

lemma upsert_fresh:
  "\<forall>old\<in>set logs. idempotency_key old \<noteq> idempotency_key new \<Longrightarrow> upsert new logs = logs @ [new]"
  by (induction logs) simp_all

lemma status_onConflict: "status (onConflict old excluded) = status old"
  by (simp add: onConflict_def)

lemma status_insertValues: "status (insertValues h md ws we seg e) = ''active''"
  by (simp add: insertValues_def)

lemma status_upsert:
  "\<exists>n. map status (upsert new logs) = map status logs @ replicate n (status new)"
proof (induction logs)
  case Nil
  have "map status (upsert new []) = map status [] @ replicate 1 (status new)" by simp
  then show ?case by blast
next
  case (Cons old rest)
  show ?case
  proof (cases "idempotency_key old = idempotency_key new")
    case True
    then have "map status (upsert new (old # rest)) = map status (old # rest) @ replicate 0 (status new)"
      by (simp add: status_onConflict)
    then show ?thesis by blast
  next
    case False
    from Cons.IH obtain n where "map status (upsert new rest) = map status rest @ replicate n (status new)"
      by blast
    with False have "map status (upsert new (old # rest)) = map status (old # rest) @ replicate n (status new)"
      by simp
    then show ?thesis by blast
  qed
qed

lemma status_writeSegments:
  "writeSegments h md ws we segs logs = Inr logs' \<Longrightarrow>
   \<exists>n. map status logs' = map status logs @ replicate n ''active''"
proof (induction segs arbitrary: logs)
  case Nil
  then have "map status logs' = map status logs @ replicate 0 ''active''" by simp
  then show ?case by blast
next
  case (Cons seg rest)
  from Cons.prems obtain e where e: "segmentEnd seg = Some e"
    and w: "writeSegments h md ws we rest (upsert (insertValues h md ws we seg e) logs) = Inr logs'"
    by (cases "segmentEnd seg") simp_all
  from Cons.IH[OF w] obtain n where
    n: "map status logs' = map status (upsert (insertValues h md ws we seg e) logs) @ replicate n ''active''"
    by blast
  from status_upsert[of "insertValues h md ws we seg e" logs] obtain k where
    "map status (upsert (insertValues h md ws we seg e) logs) = map status logs @ replicate k ''active''"
    by (auto simp: status_insertValues)
  with n have "map status logs' = map status logs @ replicate (k + n) ''active''"
    by (simp add: replicate_add)
  then show ?case by blast
qed

lemma processTick_cases:
  "processTick h now db = db \<or>
   (\<exists>md ws we segs logs. writeSegments h md ws we segs (dev_session_logs db) = Inr logs \<and>
       processTick h now db = db\<lparr>dev_session_logs := logs\<rparr>)"
proof -
  let ?md = "tickMode h now"
  let ?we = "floorToQuarterHour h now"
  let ?ws = "?we - 30 * 60 * 1000"
  let ?raw = "fetchRawEvents db ?ws ?we ?md"
  let ?w = "writeSegments h ?md ?ws ?we (buildSegments h db ?md ?raw) (dev_session_logs db)"
  show ?thesis
  proof (cases "?raw = []")
    case True
    then have "processTick h now db = db" by (simp add: processTick_def Let_def)
    then show ?thesis by (rule disjI1)
  next
    case False
    show ?thesis
    proof (cases ?w)
      case (Inl err)
      with False have "processTick h now db = db" by (simp add: processTick_def Let_def)
      then show ?thesis by (rule disjI1)
    next
      case (Inr logs)
      with False have "processTick h now db = db\<lparr>dev_session_logs := logs\<rparr>"
        by (simp add: processTick_def Let_def)
      with Inr show ?thesis by blast
    qed
  qed
qed

lemma onConflict_merge:
  "last_ts (onConflict old excluded) = max (last_ts old) (last_ts excluded) \<and>
   segment_end (onConflict old excluded) = max (segment_end old) (segment_end excluded) \<and>
   context_version_max (onConflict old excluded) =
     sql_greatest (context_version_max old) (context_version_max excluded) \<and>
   context_version_min (onConflict old excluded) = context_version_min old \<and>
   idempotency_key (onConflict old excluded) = idempotency_key old"
  by (simp add: onConflict_def)

lemma sql_greatest_Some: "sql_greatest (Some x) (Some y) = Some (max x y)"
  by (simp add: sql_greatest_def)

lemma upsert_keys:
  "map idempotency_key (upsert new logs) =
     (if idempotency_key new \<in> set (map idempotency_key logs) then map idempotency_key logs
      else map idempotency_key logs @ [idempotency_key new])"
  by (induction logs) (auto simp: onConflict_def)

lemma upsert_distinct:
  "distinct (map idempotency_key logs) \<Longrightarrow> distinct (map idempotency_key (upsert new logs))"
  by (simp add: upsert_keys)

section \<open>Lemmas: device tags\<close>

lemma fallback_in_class: "list_all in_tag_class (js ''studio-terminals'')"
  by code_simp

lemma hyphen_in_class: "in_tag_class 0x2D"
  by code_simp

lemma replaced_in_class: "list_all in_tag_class (map (\<lambda>c. if in_tag_class c then c else 0x2D) xs)"
  by (induction xs) (simp_all add: hyphen_in_class)

lemma normalizePcTag_chars: "list_all in_tag_class (normalizePcTag h t)"
proof (cases t)
  case None
  with fallback_in_class show ?thesis by (simp add: normalizePcTag_def)
next
  case (Some s)
  with fallback_in_class replaced_in_class[of "toLowerCase h s"] show ?thesis
    by (simp add: normalizePcTag_def)
qed

lemma normalizePcTag_map:
  "s \<noteq> [] \<Longrightarrow> normalizePcTag h (Some s) =
     map (\<lambda>c. if in_tag_class c then c else 0x2D) (toLowerCase h s)"
  by (simp add: normalizePcTag_def)

lemma sample_ascii: "list_all (\<lambda>c. c < 0x80) s \<Longrightarrow> sample_toLowerCase s = map ascii_lower s"
proof (induction s)
  case Nil
  show ?case by (simp add: sample_toLowerCase_def)
next
  case (Cons c s)
  then have c: "c < 0x80" and IH: "sample_toLowerCase s = map ascii_lower s" by simp_all
  from c have "c \<noteq> 0x130" "c \<noteq> 0x212A" by auto
  then have "sample_toLowerCase (c # s) = ascii_lower c # sample_toLowerCase s"
    by (simp add: sample_toLowerCase_def ascii_lower_def)
  with IH show ?case by simp
qed

lemma utc_ascii: "ascii_lowercasing utc_host"
  by (simp add: ascii_lowercasing_def utc_host_def sample_ascii)

lemma normalizePcTag_ascii:
  assumes "ascii_lowercasing h" and "tag \<noteq> []" and "list_all (\<lambda>c. c < 0x80) tag"
  shows "normalizePcTag h (Some tag) =
           map (\<lambda>c. if in_tag_class (ascii_lower c) then ascii_lower c else 0x2D) tag"
proof -
  from assms(1,3) have "toLowerCase h tag = map ascii_lower tag"
    unfolding ascii_lowercasing_def by blast
  then show ?thesis
    by (simp add: normalizePcTag_map[OF assms(2)] comp_def)
qed

lemma ascii_capitals: "map ascii_lower (js ''ABCDEFGHIJKLMNOPQRSTUVWXYZ'') = js ''abcdefghijklmnopqrstuvwxyz''"
  by code_simp

section \<open>Lemmas: the concrete window, evaluated\<close>

lemma demo_ascii: "list_all (\<lambda>c. c < 0x80) (js ''My PC_01'')"
  by code_simp


lemma demo_segments:
  "buildSegments utc_host demo_db ''internal'' demo_events =
   [\<lparr> projectId = ''P1'', projectSlug = ''p-one'', userId = Some ''u1'', pcTag = Some (js ''PC-1''),
       seg_mode = ''internal'', lane = ''internal'', segmentStart = 36300000,
       segmentEnd = Some 37200000,
       events = [demo_event 1 ''PC-1'' 36300000 (Some 5), demo_event 2 ''PC-1'' 36600000 None],
       contextVersions = [5] \<rparr>,
    \<lparr> projectId = ''P2'', projectSlug = ''p-two'', userId = Some ''u1'', pcTag = Some (js ''PC-1''),
       seg_mode = ''internal'', lane = ''internal'', segmentStart = 37200000,
       segmentEnd = Some 37200000,
       events = [demo_event 3 ''PC-1'' 37200000 (Some 7)],
       contextVersions = [7] \<rparr>]"
  by code_simp

lemma demo_resolution:
  "map (\<lambda>e. (original_timestamp e, eventProjectId utc_host demo_db e)) demo_events =
     [(36300000, ''P1''), (36600000, ''P1''), (37200000, ''P2'')]"
  by code_simp

lemma demo_unassigned_absent: "list_all (\<lambda>e. eventContext utc_host demo_db e = None) demo_unassigned"
  by code_simp

lemma demo_versions_segments:
  "map (\<lambda>s. (segmentEnd s, map ev_id (events s), contextVersions s))
     (buildSegments utc_host demo_db ''internal'' demo_versions)
   = [(Some 36700000, [6, 7, 8, 9], [5, 3, 9]), (Some 36700000, [10], [])]"
  by code_simp

lemma demo_tag:
  "normalizePcTag utc_host (Some (js ''My PC_01'')) = js ''my-pc-01'' \<and>
   normalizePcTag utc_host (Some [0x130, 0x58]) = js ''i-x'' \<and>
   normalizePcTag utc_host (Some (0x212A # js ''elvin'')) = js ''kelvin''"
  by code_simp

lemma demo_tags_stored:
  "list_all (\<lambda>s. normalizePcTag utc_host (pc_tag (hd (events s))) = js ''pc-1'')
     (buildSegments utc_host demo_db ''internal'' demo_events)"
  by code_simp

lemma demo_versions_fresh:
  "list_all (\<lambda>s. idempotency_key demo_cleaned_row \<noteq>
                  Some (ChadKey ''internal'' (projectId s) (segmentStart s) 36700000))
     (buildSegments utc_host demo_db ''internal'' demo_versions)"
  by code_simp

lemma demo_cleaned_tick:
  "map status
     (dev_session_logs (processTick utc_host 37800000 (demo_db\<lparr>dev_session_logs := [demo_cleaned_row]\<rparr>)))
   = [''cleaned'', ''active'']"
  by code_simp

lemma demo_db_raw: "dev_transcripts_raw (demo_db\<lparr>dev_session_logs := [demo_cleaned_row]\<rparr>) = demo_events"
  by (simp add: demo_db_def)



lemma utc_fixed: "fixed_offset utc_host 0"
  by (simp add: fixed_offset_def utc_host_def)

section \<open>Claims about the time aligner\<close>

text \<open>
  C9, at a failing input. The host is in \<open>America/New_York\<close> and the clock reads
  2026-11-01T06:30:00Z (1793514600000), half an hour after the end of daylight saving
  time: local time is 01:30 for the second time. \<open>floorToQuarterHour\<close> sets the minutes
  of that local reading, which is read back as the first 01:30, so it returns 05:30:00Z, one
  hour before \<open>now\<close>; fifteen local minutes later is 05:45:00Z, and
  \<open>msUntilNextQuarter\<close> returns -2700000, a negative duration. One second before the
  change, at 05:59:59Z (1793512799000), it returns 3601000, more than fifteen minutes.
\<close>

theorem msUntilNextQuarter_fall_back:
  "LocalTime new_york_host 1793514600000 = 1793496600000 \<and>
   getMinutes new_york_host 1793514600000 = 30 \<and>
   floorToQuarterHour new_york_host 1793514600000 = 1793511000000 \<and>
   msUntilNextQuarter new_york_host 1793514600000 = - 2700000 \<and>
   floorToQuarterHour new_york_host 1793512799000 = 1793511900000 \<and>
   msUntilNextQuarter new_york_host 1793512799000 = 3601000"
  by code_simp



section \<open>Claims about the segmenter\<close>

text \<open>
  C3. For every non-empty sequence of events in ascending order of timestamp, the segments
  partition the input: there is at least one segment, the segments' event lists
  concatenated in order are the input (so every event is in exactly one segment), no
  segment is empty, the segments are in ascending time order (by their starts, and every
  event of an earlier segment is no later than every event of a later one), and no two
  adjacent segments have the same attribution key.
\<close>

theorem segmenter_partitions:
  assumes "rawEvents \<noteq> []" and "sorted (map original_timestamp rawEvents)"
  shows "buildSegments h client md rawEvents \<noteq> [] \<and>
         concat (map events (buildSegments h client md rawEvents)) = rawEvents \<and>
         (\<forall>s\<in>set (buildSegments h client md rawEvents). events s \<noteq> []) \<and>
         sorted (map segmentStart (buildSegments h client md rawEvents)) \<and>
         sorted_wrt (\<lambda>a b. \<forall>x\<in>set (events a). \<forall>y\<in>set (events b).
            original_timestamp x \<le> original_timestamp y) (buildSegments h client md rawEvents) \<and>
         distinct_adj (map projectId (buildSegments h client md rawEvents))"
proof -
  have "\<forall>s\<in>set (buildSegments h client md rawEvents). events s \<noteq> []"
    using build_ok[of h client md rawEvents] by (auto simp: list_all_iff seg_ok_def)
  moreover have "buildSegments h client md rawEvents \<noteq> []"
    using build_last[OF assms(1), of h client md] by simp
  ultimately show ?thesis
    using build_events[of h client md rawEvents] build_starts_sorted[OF assms(2), of h client md]
      build_blocks_sorted[OF assms(2), of h client md] build_keys_distinct_adj[of h client md rawEvents]
    by simp
qed

theorem segmenter_partitions_witness:
  "demo_events \<noteq> [] \<and> sorted (map original_timestamp demo_events) \<and>
   concat (map events (buildSegments utc_host demo_db ''internal'' demo_events)) = demo_events \<and>
   map projectId (buildSegments utc_host demo_db ''internal'' demo_events) = [''P1'', ''P2''] \<and>
   distinct_adj (map projectId (buildSegments utc_host demo_db ''internal'' demo_events))"
proof -
  have ne: "demo_events \<noteq> []" by (simp add: demo_events_def)
  have so: "sorted (map original_timestamp demo_events)"
    by (simp add: demo_events_def demo_event_def)
  show ?thesis
    using ne so segmenter_partitions [OF ne so, of utc_host demo_db "''internal''"]
    by (simp add: demo_segments)
qed

text \<open>
  C4. For every non-empty event sequence, each segment except the last has \<open>segmentEnd\<close>
  equal to the timestamp of the first event of the next segment, and the last segment's
  \<open>segmentEnd\<close> is the timestamp of its own last event. In particular the three events at
  10:05 (resolving to P1), 10:10 (P1) and 10:20 (P2) give exactly two segments: key P1 from
  10:05 to 10:20 with 2 events, and key P2 from 10:20 to 10:20 with 1 event.
\<close>

theorem segment_ends:
  "(rawEvents \<noteq> [] \<longrightarrow>
      (\<forall>i. Suc i < length (buildSegments h client md rawEvents) \<longrightarrow>
         segmentEnd (buildSegments h client md rawEvents ! i) =
           Some (original_timestamp (hd (events (buildSegments h client md rawEvents ! Suc i))))) \<and>
      buildSegments h client md rawEvents \<noteq> [] \<and>
      segmentEnd (last (buildSegments h client md rawEvents)) =
        Some (original_timestamp (last (events (last (buildSegments h client md rawEvents)))))) \<and>
   map (\<lambda>e. (original_timestamp e, eventProjectId utc_host demo_db e)) demo_events =
     [(36300000, ''P1''), (36600000, ''P1''), (37200000, ''P2'')] \<and>
   map (\<lambda>s. (projectId s, segmentStart s, segmentEnd s, length (events s)))
     (buildSegments utc_host demo_db ''internal'' demo_events) =
     [(''P1'', 36300000, Some 37200000, 2), (''P2'', 37200000, Some 37200000, 1)]"
proof -
  have "map (\<lambda>s. (projectId s, segmentStart s, segmentEnd s, length (events s)))
          (buildSegments utc_host demo_db ''internal'' demo_events) =
        [(''P1'', 36300000, Some 37200000, 2), (''P2'', 37200000, Some 37200000, 1)]"
    by (simp add: demo_segments)
  then show ?thesis
    using build_segment_ends[of _ h client md rawEvents] build_last[of rawEvents h client md]
    by (simp add: demo_resolution)
qed

theorem segment_ends_witness:
  "demo_events \<noteq> [] \<and>
   Suc 0 < length (buildSegments utc_host demo_db ''internal'' demo_events) \<and>
   segmentEnd (buildSegments utc_host demo_db ''internal'' demo_events ! 0) = Some 37200000 \<and>
   original_timestamp (hd (events (buildSegments utc_host demo_db ''internal'' demo_events ! Suc 0))) = 37200000 \<and>
   segmentEnd (last (buildSegments utc_host demo_db ''internal'' demo_events)) = Some 37200000"
proof -
  have ne: "demo_events \<noteq> []" by (simp add: demo_events_def)
  show ?thesis
    using ne segment_ends [of demo_events utc_host demo_db "''internal''"]
    by (simp add: demo_segments demo_event_def)
qed

text \<open>
  C7. An event whose resolver lookup returns absent gets the fixed key \<open>UNASSIGNED\<close>,
  whatever the event holds. Every event of a segment resolves to the segment's key, and the
  keys of the segments are the keys of the events with adjacent repetitions removed, so a
  run of consecutive events with one key, the sentinel like any other, is one segment; a
  non-empty input whose lookups are all absent gives exactly one segment, keyed
  \<open>UNASSIGNED\<close>, holding all events.
\<close>

theorem absent_is_sentinel:
  "(eventContext h client ev = None \<longrightarrow> eventProjectId h client ev = ''UNASSIGNED'') \<and>
   (\<forall>s\<in>set (buildSegments h client md es). \<forall>e\<in>set (events s). eventProjectId h client e = projectId s) \<and>
   map projectId (buildSegments h client md es) = remdups_adj (map (eventProjectId h client) es) \<and>
   (es \<noteq> [] \<and> (\<forall>e\<in>set es. eventContext h client e = None) \<longrightarrow>
      (\<exists>s. buildSegments h client md es = [s] \<and> projectId s = ''UNASSIGNED'' \<and> events s = es))"
proof -
  have "\<forall>s\<in>set (buildSegments h client md es). \<forall>e\<in>set (events s). eventProjectId h client e = projectId s"
    using build_ok[of h client md es] by (auto simp: list_all_iff seg_ok_def)
  then show ?thesis
    using absent_key[of h client ev] build_keys[of h client md es] all_absent_one_segment[of es h client md]
    by blast
qed

theorem absent_is_sentinel_witness:
  "demo_unassigned \<noteq> [] \<and>
   list_all (\<lambda>e. eventContext utc_host demo_db e = None) demo_unassigned \<and>
   eventProjectId utc_host demo_db (hd demo_unassigned) = ''UNASSIGNED'' \<and>
   map projectId (buildSegments utc_host demo_db ''internal'' demo_unassigned) = [''UNASSIGNED''] \<and>
   map events (buildSegments utc_host demo_db ''internal'' demo_unassigned) = [demo_unassigned]"
proof -
  have ne: "demo_unassigned \<noteq> []" by (simp add: demo_unassigned_def)
  have ab: "\<forall>e\<in>set demo_unassigned. eventContext utc_host demo_db e = None"
    using demo_unassigned_absent by (simp only: list_all_iff)
  have hd: "eventContext utc_host demo_db (hd demo_unassigned) = None"
    using ab ne by simp
  note T = absent_is_sentinel [of utc_host demo_db "hd demo_unassigned" "''internal''" demo_unassigned]
  from T hd have key: "eventProjectId utc_host demo_db (hd demo_unassigned) = ''UNASSIGNED''"
    by blast
  from T ne ab obtain s where s: "buildSegments utc_host demo_db ''internal'' demo_unassigned = [s]"
    "projectId s = ''UNASSIGNED''" "events s = demo_unassigned"
    by blast
  then have "map projectId (buildSegments utc_host demo_db ''internal'' demo_unassigned) = [''UNASSIGNED'']"
    and "map events (buildSegments utc_host demo_db ''internal'' demo_unassigned) = [demo_unassigned]"
    by simp_all
  with ne demo_unassigned_absent key show ?thesis by (intro conjI)
qed

section \<open>Claims about device tags\<close>

text \<open>
  C8. For every tag, a string of UTF-16 code units or none, and whatever the host's case
  conversion: normalization returns the fallback tag \<open>studio-terminals\<close> for a missing or
  empty tag; for any other tag it lower-cases the tag with the host's \<open>toLowerCase\<close> and
  then replaces every code unit outside \<open>[a-z0-9-]\<close> by \<open>-\<close>, so every unit of a
  normalized tag is in the class. Where the host lower-cases ASCII as ECMAScript does, an
  ASCII tag is normalized unit by unit: \<open>A\<close>-\<open>Z\<close> become \<open>a\<close>-\<open>z\<close>, units of the
  class stay, every other unit becomes \<open>-\<close>. The same function is used for lookup and for storage: the
  segments depend on the context table only through lookups at normalized tags, and for
  every segment the stored \<open>pc_tag_norm\<close> is the normalized tag of its first event, the
  very key under which that event's context (hence the segment's attribution key) was
  looked up.
\<close>

theorem tag_normalization:
  "normalizePcTag h None = js ''studio-terminals'' \<and>
   normalizePcTag h (Some []) = js ''studio-terminals'' \<and>
   (tag \<noteq> [] \<longrightarrow> normalizePcTag h (Some tag) =
      map (\<lambda>c. if c \<in> set (js ''abcdefghijklmnopqrstuvwxyz0123456789-'') then c else 0x2D)
          (toLowerCase h tag)) \<and>
   (\<forall>x\<in>set (normalizePcTag h t). x \<in> set (js ''abcdefghijklmnopqrstuvwxyz0123456789-'')) \<and>
   (ascii_lowercasing h \<and> tag \<noteq> [] \<and> list_all (\<lambda>c. c < 0x80) tag \<longrightarrow>
      normalizePcTag h (Some tag) =
        map (\<lambda>c. if ascii_lower c \<in> set (js ''abcdefghijklmnopqrstuvwxyz0123456789-'')
                 then ascii_lower c else 0x2D) tag) \<and>
   map ascii_lower (js ''ABCDEFGHIJKLMNOPQRSTUVWXYZ'') = js ''abcdefghijklmnopqrstuvwxyz'' \<and>
   ((\<forall>ts tg. resolveContext db ts (normalizePcTag h tg) = resolveContext db' ts (normalizePcTag h tg))
      \<longrightarrow> buildSegments h db md es = buildSegments h db' md es) \<and>
   (\<forall>s\<in>set (buildSegments h db md es).
      pc_tag_norm (insertValues h md ws we s e) = normalizePcTag h (pc_tag (hd (events s))) \<and>
      projectId s = js_or_str (opt_chain (resolveContext db (original_timestamp (hd (events s)))
                       (pc_tag_norm (insertValues h md ws we s e))) ctx_project_id) ''UNASSIGNED'')"
proof -
  have a: "normalizePcTag h None = js ''studio-terminals''"
    "normalizePcTag h (Some []) = js ''studio-terminals''"
    by (simp_all add: normalizePcTag_def)
  have b: "tag \<noteq> [] \<longrightarrow> normalizePcTag h (Some tag) =
      map (\<lambda>c. if c \<in> set (js ''abcdefghijklmnopqrstuvwxyz0123456789-'') then c else 0x2D)
          (toLowerCase h tag)"
  proof
    assume "tag \<noteq> []"
    then have "normalizePcTag h (Some tag) =
      map (\<lambda>c. if in_tag_class c then c else 0x2D) (toLowerCase h tag)"
      by (rule normalizePcTag_map)
    then show "normalizePcTag h (Some tag) =
      map (\<lambda>c. if c \<in> set (js ''abcdefghijklmnopqrstuvwxyz0123456789-'') then c else 0x2D)
          (toLowerCase h tag)"
      by (simp only: in_tag_class_def)
  qed
  have d: "\<forall>x\<in>set (normalizePcTag h t). x \<in> set (js ''abcdefghijklmnopqrstuvwxyz0123456789-'')"
  proof
    fix x assume x: "x \<in> set (normalizePcTag h t)"
    have "\<forall>x\<in>set (normalizePcTag h t). in_tag_class x"
      using normalizePcTag_chars[of h t] by (simp only: list_all_iff)
    then have "in_tag_class x" using x by (rule bspec)
    then show "x \<in> set (js ''abcdefghijklmnopqrstuvwxyz0123456789-'')"
      by (simp only: in_tag_class_def)
  qed
  have g: "ascii_lowercasing h \<and> tag \<noteq> [] \<and> list_all (\<lambda>c. c < 0x80) tag \<longrightarrow>
      normalizePcTag h (Some tag) =
        map (\<lambda>c. if ascii_lower c \<in> set (js ''abcdefghijklmnopqrstuvwxyz0123456789-'')
                 then ascii_lower c else 0x2D) tag"
  proof
    assume "ascii_lowercasing h \<and> tag \<noteq> [] \<and> list_all (\<lambda>c. c < 0x80) tag"
    then have "normalizePcTag h (Some tag) =
           map (\<lambda>c. if in_tag_class (ascii_lower c) then ascii_lower c else 0x2D) tag"
      by (intro normalizePcTag_ascii) blast+
    then show "normalizePcTag h (Some tag) =
        map (\<lambda>c. if ascii_lower c \<in> set (js ''abcdefghijklmnopqrstuvwxyz0123456789-'')
                 then ascii_lower c else 0x2D) tag"
      by (simp only: in_tag_class_def)
  qed
  have e: "(\<forall>ts tg. resolveContext db ts (normalizePcTag h tg) = resolveContext db' ts (normalizePcTag h tg))
      \<longrightarrow> buildSegments h db md es = buildSegments h db' md es"
    using buildSegments_resolver[of db h db' md es] by blast
  have f: "\<forall>s\<in>set (buildSegments h db md es).
      pc_tag_norm (insertValues h md ws we s e) = normalizePcTag h (pc_tag (hd (events s))) \<and>
      projectId s = js_or_str (opt_chain (resolveContext db (original_timestamp (hd (events s)))
                       (pc_tag_norm (insertValues h md ws we s e))) ctx_project_id) ''UNASSIGNED''"
  proof
    fix s assume "s \<in> set (buildSegments h db md es)"
    from build_first_event[OF this] show
      "pc_tag_norm (insertValues h md ws we s e) = normalizePcTag h (pc_tag (hd (events s))) \<and>
       projectId s = js_or_str (opt_chain (resolveContext db (original_timestamp (hd (events s)))
                       (pc_tag_norm (insertValues h md ws we s e))) ctx_project_id) ''UNASSIGNED''"
      by (simp add: insertValues_def)
  qed
  show ?thesis
    by (intro conjI) (rule a b d g ascii_capitals e f)+
qed

theorem tag_normalization_witness:
  "[0x130, 0x58] \<noteq> ([] :: js_string) \<and>
   toLowerCase utc_host [0x130, 0x58] = [0x69, 0x307, 0x78] \<and>
   normalizePcTag utc_host (Some [0x130, 0x58]) =
     map (\<lambda>c. if c \<in> set (js ''abcdefghijklmnopqrstuvwxyz0123456789-'') then c else 0x2D)
         [0x69, 0x307, 0x78] \<and>
   normalizePcTag utc_host (Some [0x130, 0x58]) = js ''i-x'' \<and>
   normalizePcTag utc_host (Some (0x212A # js ''elvin'')) = js ''kelvin'' \<and>
   normalizePcTag utc_host (Some (js ''My PC_01'')) = js ''my-pc-01'' \<and>
   list_all (\<lambda>c. c < 0x80) (js ''My PC_01'') \<and>
   normalizePcTag utc_host (Some (js ''My PC_01'')) =
     map (\<lambda>c. if ascii_lower c \<in> set (js ''abcdefghijklmnopqrstuvwxyz0123456789-'')
              then ascii_lower c else 0x2D) (js ''My PC_01'') \<and>
   list_all (\<lambda>x. x \<in> set (js ''abcdefghijklmnopqrstuvwxyz0123456789-''))
     (normalizePcTag utc_host (Some [0x130, 0x58])) \<and>
   buildSegments utc_host demo_db ''internal'' demo_events =
     buildSegments utc_host (demo_db\<lparr>dev_session_logs := [demo_cleaned_row]\<rparr>) ''internal'' demo_events \<and>
   list_all (\<lambda>s. pc_tag_norm (insertValues utc_host ''internal'' 36000000 37800000 s 37200000)
                  = js ''pc-1'')
     (buildSegments utc_host demo_db ''internal'' demo_events)"
proof -
  note A = tag_normalization [of utc_host "js ''My PC_01''" None demo_db demo_db "''internal''" "[]"
        0 0 0]
  have ane: "js ''My PC_01'' \<noteq> []" by (simp add: js_def)
  from A have "ascii_lowercasing utc_host \<and> js ''My PC_01'' \<noteq> [] \<and>
      list_all (\<lambda>c. c < 0x80) (js ''My PC_01'') \<longrightarrow>
      normalizePcTag utc_host (Some (js ''My PC_01'')) =
        map (\<lambda>c. if ascii_lower c \<in> set (js ''abcdefghijklmnopqrstuvwxyz0123456789-'')
                 then ascii_lower c else 0x2D) (js ''My PC_01'')"
    by (elim conjE)
  moreover have "ascii_lowercasing utc_host \<and> js ''My PC_01'' \<noteq> [] \<and>
      list_all (\<lambda>c. c < 0x80) (js ''My PC_01'')"
    by (intro conjI) (rule utc_ascii ane demo_ascii)+
  ultimately have unitwise: "normalizePcTag utc_host (Some (js ''My PC_01'')) =
        map (\<lambda>c. if ascii_lower c \<in> set (js ''abcdefghijklmnopqrstuvwxyz0123456789-'')
                 then ascii_lower c else 0x2D) (js ''My PC_01'')"
    by (rule mp)
  note T = tag_normalization [of utc_host "[0x130, 0x58]" "Some [0x130, 0x58]" demo_db
        "demo_db\<lparr>dev_session_logs := [demo_cleaned_row]\<rparr>"
        "''internal''" demo_events 36000000 37800000 37200000]
  have ne: "[0x130, 0x58] \<noteq> ([] :: js_string)" by simp
  have lw: "toLowerCase utc_host [0x130, 0x58] = [0x69, 0x307, 0x78]" by code_simp
  from T have "[0x130, 0x58] \<noteq> ([] :: js_string) \<longrightarrow>
      normalizePcTag utc_host (Some [0x130, 0x58]) =
      map (\<lambda>c. if c \<in> set (js ''abcdefghijklmnopqrstuvwxyz0123456789-'') then c else 0x2D)
          (toLowerCase utc_host [0x130, 0x58])"
    by (elim conjE)
  with ne have "normalizePcTag utc_host (Some [0x130, 0x58]) =
      map (\<lambda>c. if c \<in> set (js ''abcdefghijklmnopqrstuvwxyz0123456789-'') then c else 0x2D)
          (toLowerCase utc_host [0x130, 0x58])"
    by (rule rev_mp)
  then have shape: "normalizePcTag utc_host (Some [0x130, 0x58]) =
     map (\<lambda>c. if c \<in> set (js ''abcdefghijklmnopqrstuvwxyz0123456789-'') then c else 0x2D)
         [0x69, 0x307, 0x78]"
    by (simp only: lw)
  from T have "\<forall>x\<in>set (normalizePcTag utc_host (Some [0x130, 0x58])).
      x \<in> set (js ''abcdefghijklmnopqrstuvwxyz0123456789-'')"
    by (elim conjE)
  then have cls: "list_all (\<lambda>x. x \<in> set (js ''abcdefghijklmnopqrstuvwxyz0123456789-''))
     (normalizePcTag utc_host (Some [0x130, 0x58]))"
    by (simp only: list_all_iff)
  have same: "\<forall>ts tg. resolveContext demo_db ts (normalizePcTag utc_host tg) =
      resolveContext (demo_db\<lparr>dev_session_logs := [demo_cleaned_row]\<rparr>) ts (normalizePcTag utc_host tg)"
    by (simp add: resolveContext_def)
  from T have "(\<forall>ts tg. resolveContext demo_db ts (normalizePcTag utc_host tg) =
      resolveContext (demo_db\<lparr>dev_session_logs := [demo_cleaned_row]\<rparr>) ts (normalizePcTag utc_host tg))
    \<longrightarrow> buildSegments utc_host demo_db ''internal'' demo_events =
     buildSegments utc_host (demo_db\<lparr>dev_session_logs := [demo_cleaned_row]\<rparr>) ''internal'' demo_events"
    by (elim conjE)
  with same have indep: "buildSegments utc_host demo_db ''internal'' demo_events =
     buildSegments utc_host (demo_db\<lparr>dev_session_logs := [demo_cleaned_row]\<rparr>) ''internal'' demo_events"
    by (rule rev_mp)
  from T have st: "\<forall>s\<in>set (buildSegments utc_host demo_db ''internal'' demo_events).
      pc_tag_norm (insertValues utc_host ''internal'' 36000000 37800000 s 37200000)
        = normalizePcTag utc_host (pc_tag (hd (events s)))"
    by (elim conjE) (rule ballI, drule (1) bspec, erule conjunct1)
  have "\<forall>s\<in>set (buildSegments utc_host demo_db ''internal'' demo_events).
      pc_tag_norm (insertValues utc_host ''internal'' 36000000 37800000 s 37200000) = js ''pc-1''"
  proof
    fix s assume s: "s \<in> set (buildSegments utc_host demo_db ''internal'' demo_events)"
    with demo_tags_stored have "normalizePcTag utc_host (pc_tag (hd (events s))) = js ''pc-1''"
      by (simp only: list_all_iff)
    with st s show "pc_tag_norm (insertValues utc_host ''internal'' 36000000 37800000 s 37200000)
        = js ''pc-1''"
      by simp
  qed
  then have stored: "list_all (\<lambda>s. pc_tag_norm (insertValues utc_host ''internal'' 36000000 37800000 s 37200000)
                  = js ''pc-1'')
     (buildSegments utc_host demo_db ''internal'' demo_events)"
    by (simp only: list_all_iff)
  from demo_tag have t1: "normalizePcTag utc_host (Some (js ''My PC_01'')) = js ''my-pc-01''"
    by (elim conjE)
  from demo_tag have t2: "normalizePcTag utc_host (Some [0x130, 0x58]) = js ''i-x''"
    by (elim conjE)
  from demo_tag have t3: "normalizePcTag utc_host (Some (0x212A # js ''elvin'')) = js ''kelvin''"
    by (elim conjE)
  show ?thesis
    by (intro conjI) (rule ne lw shape t2 t3 t1 demo_ascii unitwise cls indep stored)+
qed

section \<open>Claims about the aggregate writer\<close>

text \<open>
  C10. For every segment the segmenter builds, written where no row has its idempotency
  key, the row is inserted as given, and its min and max context-version markers are the
  minimum and maximum of the \<open>context_version\<close> values present on the segment's events;
  both are null when no event of the segment carries one.
\<close>

theorem version_markers_on_insert:
  assumes "s \<in> set (buildSegments h client md rawEvents)"
    and "segmentEnd s = Some e"
    and "\<forall>old\<in>set logs. idempotency_key old \<noteq> Some (ChadKey md (projectId s) (segmentStart s) e)"
  shows "upsert (insertValues h md ws we s e) logs = logs @ [insertValues h md ws we s e] \<and>
         set (versionsOf (events s)) = {v. \<exists>ev\<in>set (events s). context_version ev = Some v} \<and>
         context_version_min (insertValues h md ws we s e) =
           (if versionsOf (events s) = [] then None else Some (Min (set (versionsOf (events s))))) \<and>
         context_version_max (insertValues h md ws we s e) =
           (if versionsOf (events s) = [] then None else Some (Max (set (versionsOf (events s)))))"
proof -
  have cv: "contextVersions s = versionsOf (events s)"
    using build_ok[of h client md rawEvents] assms(1) by (simp add: list_all_iff seg_ok_def)
  have fresh: "upsert (insertValues h md ws we s e) logs = logs @ [insertValues h md ws we s e]"
    using assms(3) by (intro upsert_fresh) (simp add: insertValues_def)
  have mn: "context_version_min (insertValues h md ws we s e) =
           (if versionsOf (events s) = [] then None else Some (Min (set (versionsOf (events s)))))"
    by (simp add: insertValues_def cv versionMin_Min) (simp add: versionMin_def)
  have mx: "context_version_max (insertValues h md ws we s e) =
           (if versionsOf (events s) = [] then None else Some (Max (set (versionsOf (events s)))))"
    by (simp add: insertValues_def cv versionMax_Max) (simp add: versionMax_def)
  show ?thesis using fresh mn mx set_versionsOf[of "events s"] by simp
qed

theorem version_markers_on_insert_witness:
  "(let s = hd (buildSegments utc_host demo_db ''internal'' demo_versions);
        s' = last (buildSegments utc_host demo_db ''internal'' demo_versions)
    in s \<in> set (buildSegments utc_host demo_db ''internal'' demo_versions) \<and>
       s' \<in> set (buildSegments utc_host demo_db ''internal'' demo_versions) \<and>
       segmentEnd s = Some 36700000 \<and> segmentEnd s' = Some 36700000 \<and>
       list_all (\<lambda>old. idempotency_key old \<noteq>
           Some (ChadKey ''internal'' (projectId s) (segmentStart s) 36700000)) [demo_cleaned_row] \<and>
       list_all (\<lambda>old. idempotency_key old \<noteq>
           Some (ChadKey ''internal'' (projectId s') (segmentStart s') 36700000)) [demo_cleaned_row] \<and>
       map ev_id (events s) = [6, 7, 8, 9] \<and>
       versionsOf (events s) = [5, 3, 9] \<and> versionsOf (events s') = [] \<and>
       upsert (insertValues utc_host ''internal'' 36000000 37800000 s 36700000) [demo_cleaned_row] =
         [demo_cleaned_row, insertValues utc_host ''internal'' 36000000 37800000 s 36700000] \<and>
       context_version_min (insertValues utc_host ''internal'' 36000000 37800000 s 36700000) = Some 3 \<and>
       context_version_max (insertValues utc_host ''internal'' 36000000 37800000 s 36700000) = Some 9 \<and>
       upsert (insertValues utc_host ''internal'' 36000000 37800000 s' 36700000) [demo_cleaned_row] =
         [demo_cleaned_row, insertValues utc_host ''internal'' 36000000 37800000 s' 36700000] \<and>
       context_version_min (insertValues utc_host ''internal'' 36000000 37800000 s' 36700000) = None \<and>
       context_version_max (insertValues utc_host ''internal'' 36000000 37800000 s' 36700000) = None)"
proof -
  let ?segs = "buildSegments utc_host demo_db ''internal'' demo_versions"
  have shape: "map (\<lambda>s. (segmentEnd s, map ev_id (events s), contextVersions s)) ?segs
     = [(Some 36700000, [6, 7, 8, 9], [5, 3, 9]), (Some 36700000, [10], [])]"
    by (rule demo_versions_segments)
  then obtain a b where ab: "?segs = [a, b]" by auto
  have mem: "a \<in> set ?segs" "b \<in> set ?segs" by (simp_all add: ab)
  have en: "segmentEnd a = Some 36700000" "segmentEnd b = Some 36700000"
    and ids: "map ev_id (events a) = [6, 7, 8, 9]"
    and cvs: "contextVersions a = [5, 3, 9]" "contextVersions b = []"
    using shape by (simp_all add: ab)
  have ok: "seg_ok utc_host demo_db ''internal'' a" "seg_ok utc_host demo_db ''internal'' b"
    using build_ok[of utc_host demo_db "''internal''" demo_versions] by (simp_all add: ab)
  then have vs: "versionsOf (events a) = [5, 3, 9]" "versionsOf (events b) = []"
    using cvs by (simp_all add: seg_ok_def)
  have fa: "idempotency_key demo_cleaned_row \<noteq>
      Some (ChadKey ''internal'' (projectId a) (segmentStart a) 36700000)"
    and fb: "idempotency_key demo_cleaned_row \<noteq>
      Some (ChadKey ''internal'' (projectId b) (segmentStart b) 36700000)"
    using demo_versions_fresh by (simp_all add: ab)
  have fresh_a: "\<forall>old\<in>set [demo_cleaned_row]. idempotency_key old \<noteq>
      Some (ChadKey ''internal'' (projectId a) (segmentStart a) 36700000)"
    using fa by simp
  have fresh_b: "\<forall>old\<in>set [demo_cleaned_row]. idempotency_key old \<noteq>
      Some (ChadKey ''internal'' (projectId b) (segmentStart b) 36700000)"
    using fb by simp
  show ?thesis
    using mem en ids vs fa fb
      version_markers_on_insert [OF mem(1) en(1) fresh_a, of 36000000 37800000]
      version_markers_on_insert [OF mem(2) en(2) fresh_b, of 36000000 37800000]
    by (simp add: ab)
qed

text \<open>
  C6. On every host, one tick leaves the raw event table, the context table and every other store as they
  were; in the aggregate table the rows that existed keep their status, in place, and
  every row added has status \<open>active\<close>: the inserted row carries \<open>active\<close> and the
  conflict update does not touch the status.
\<close>

theorem writer_frame:
  "dev_transcripts_raw (processTick h now db) = dev_transcripts_raw db \<and>
   dev_user_context (processTick h now db) = dev_user_context db \<and>
   database.more (processTick h now db) = database.more db \<and>
   (\<exists>n. map status (dev_session_logs (processTick h now db)) =
          map status (dev_session_logs db) @ replicate n ''active'') \<and>
   status (insertValues h md ws we seg e) = ''active'' \<and>
   status (onConflict old excluded) = status old"
proof -
  from processTick_cases[of h now db]
  have frame: "dev_transcripts_raw (processTick h now db) = dev_transcripts_raw db \<and>
   dev_user_context (processTick h now db) = dev_user_context db \<and>
   database.more (processTick h now db) = database.more db"
    by auto
  have st: "\<exists>n. map status (dev_session_logs (processTick h now db)) =
          map status (dev_session_logs db) @ replicate n ''active''"
    using processTick_cases[of h now db]
  proof
    assume "processTick h now db = db"
    then have "map status (dev_session_logs (processTick h now db)) =
          map status (dev_session_logs db) @ replicate 0 ''active''" by simp
    then show ?thesis by blast
  next
    assume "\<exists>md ws we segs logs. writeSegments h md ws we segs (dev_session_logs db) = Inr logs \<and>
       processTick h now db = db\<lparr>dev_session_logs := logs\<rparr>"
    then obtain md ws we segs logs where
      w: "writeSegments h md ws we segs (dev_session_logs db) = Inr logs"
      and p: "processTick h now db = db\<lparr>dev_session_logs := logs\<rparr>"
      by blast
    from status_writeSegments[OF w] p show ?thesis by simp
  qed
  show ?thesis using frame st by (simp add: status_insertValues status_onConflict)
qed

theorem writer_frame_witness:
  "dev_transcripts_raw (processTick utc_host 37800000 (demo_db\<lparr>dev_session_logs := [demo_cleaned_row]\<rparr>))
     = demo_events \<and>
   map status (dev_session_logs (processTick utc_host 37800000 (demo_db\<lparr>dev_session_logs := [demo_cleaned_row]\<rparr>)))
     = [''cleaned'', ''active'']"
  using writer_frame [of utc_host 37800000 "demo_db\<lparr>dev_session_logs := [demo_cleaned_row]\<rparr>"]
    demo_cleaned_tick
  by (simp only: demo_db_raw simp_thms)

text \<open>
  C1, at a failing input. On a host on UTC the tick of 10:30 is run twice on the same
  database (the process restarted within the quarter hour). The second run adds no row: there is still one row
  per idempotency key. But it does not leave the rows as the first run wrote them: each
  reference list holds every event id twice and both counts are doubled. The same is seen
  on the writer alone, applied twice to the window's segment list.
\<close>

theorem rerun_double_counts:
  "(let db1 = processTick utc_host 37800000 demo_db;
        db2 = processTick utc_host 37800000 db1;
        segs = buildSegments utc_host demo_db ''internal'' demo_events
    in map idempotency_key (dev_session_logs db1) =
         [Some (ChadKey ''internal'' ''P1'' 36300000 37200000),
          Some (ChadKey ''internal'' ''P2'' 37200000 37200000)] \<and>
       map idempotency_key (dev_session_logs db2) = map idempotency_key (dev_session_logs db1) \<and>
       map raw_refs (dev_session_logs db1) = [[1, 2], [3]] \<and>
       map raw_count (dev_session_logs db1) = [2, 1] \<and>
       map message_count (dev_session_logs db1) = [2, 1] \<and>
       map raw_refs (dev_session_logs db2) = [[1, 2, 1, 2], [3, 3]] \<and>
       map raw_count (dev_session_logs db2) = [4, 2] \<and>
       map message_count (dev_session_logs db2) = [4, 2] \<and>
       dev_session_logs db2 \<noteq> dev_session_logs db1 \<and>
       writeSegments utc_host ''internal'' 36000000 37800000 segs [] = Inr (dev_session_logs db1) \<and>
       writeSegments utc_host ''internal'' 36000000 37800000 segs (dev_session_logs db1) =
         Inr (dev_session_logs db2))"
  by code_simp

text \<open>
  C2, at a failing input. On a host on UTC, after the tick of 10:30, an event of 10:07 with
  context version 2 arrives and the tick is run again. The P1 segment has the same idempotency key as the
  existing row, whose markers are min 5 and max 5, and is written with min 2 and max 5.
  The merged row keeps min 5, not the minimum 2 of the two, although its reference list
  now names the event with version 2.
\<close>

theorem merge_keeps_old_min:
  "(let db1 = processTick utc_host 37800000 demo_db;
        late = db1\<lparr>dev_transcripts_raw := dev_transcripts_raw db1 @ [demo_late_event]\<rparr>;
        segs = buildSegments utc_host late ''internal'' (fetchRawEvents late 36000000 37800000 ''internal'');
        db2 = processTick utc_host 37800000 late
    in map (\<lambda>r. (idempotency_key r, context_version_min r, context_version_max r))
           (dev_session_logs db1) =
         [(Some (ChadKey ''internal'' ''P1'' 36300000 37200000), Some 5, Some 5),
          (Some (ChadKey ''internal'' ''P2'' 37200000 37200000), Some 7, Some 7)] \<and>
       map (\<lambda>r. (idempotency_key r, context_version_min r, context_version_max r))
           (map (\<lambda>s. insertValues utc_host ''internal'' 36000000 37800000 s 37200000) segs) =
         [(Some (ChadKey ''internal'' ''P1'' 36300000 37200000), Some 2, Some 5),
          (Some (ChadKey ''internal'' ''P2'' 37200000 37200000), Some 7, Some 7)] \<and>
       map segmentEnd segs = [Some 37200000, Some 37200000] \<and>
       map (\<lambda>r. (idempotency_key r, context_version_min r, context_version_max r, raw_refs r))
           (dev_session_logs db2) =
         [(Some (ChadKey ''internal'' ''P1'' 36300000 37200000), Some 5, Some 5, [1, 2, 1, 11, 2]),
          (Some (ChadKey ''internal'' ''P2'' 37200000 37200000), Some 7, Some 7, [3, 3])])"
  by code_simp

end
